theory Spec2Isabelle
  imports Main
begin

section \<open>Values, errors and text comparison\<close>

text \<open>
  The server is a set of Express route handlers over a MySQL database. Each handler is
  embedded as a function from the database state (and the request) to the new state and
  the response. The database engine is not part of the repository; it is modelled here
  by the tables the server creates in \<^verbatim>\<open>createTables\<close> and the documented behaviour
  of the statements the handlers send, in MySQL's default configuration (strict SQL mode,
  a case-insensitive collation). A table is the list of its rows in the order of their
  insertion, which is the order a \<^verbatim>\<open>SELECT\<close> without \<^verbatim>\<open>ORDER BY\<close>
  gives them in; the engine's limits on the size of a row and on the number of columns,
  the parsing of the spreadsheet and the loss of the connection are left out.

  Cells of a parsed spreadsheet row and fields of a request body are JavaScript values;
  the model has the kinds a sheet gives and the handlers and the database driver tell
  apart: \<^verbatim>\<open>undefined\<close>, \<^verbatim>\<open>null\<close>, a text, a number and a boolean. The
  numbers of the model are the whole numbers; a cell such as 1.5 is outside it.
\<close>

datatype jsval = Undefined | Null | Str string | Num int | Bool bool

datatype sqlval = SqlNull | SqlInt int | SqlText string

datatype db_error =
    ER_DUP_ENTRY
  | ER_BAD_FIELD_ERROR
  | ER_BAD_NULL_ERROR
  | ER_NO_DEFAULT_FOR_FIELD
  | ER_DATA_TOO_LONG
  | ER_TRUNCATED_WRONG_VALUE
  | ER_FIELD_SPECIFIED_TWICE
  | ER_DUP_FIELDNAME
  | ER_WRONG_COLUMN_NAME
  | ER_CANT_DROP_FIELD_OR_KEY
  | ER_PARSE_ERROR

text \<open>
  A handler answers with a JSON body, or with \<^verbatim>\<open>res.status(400)\<close> and a fixed
  message, or (from its \<^verbatim>\<open>catch\<close>) with \<^verbatim>\<open>res.status(500)\<close> and the
  message of the database error.
\<close>

datatype http_error = Status400 string | Status500 db_error

text \<open>Case folding of the collation, on the ASCII letters.\<close>

definition lower :: "char \<Rightarrow> char" where
  "lower c =
     (case map_of (zip ''ABCDEFGHIJKLMNOPQRSTUVWXYZ'' ''abcdefghijklmnopqrstuvwxyz'') c of
        Some l \<Rightarrow> l
      | None \<Rightarrow> c)"

definition ci_eq :: "string \<Rightarrow> string \<Rightarrow> bool" where
  "ci_eq a b = (map lower a = map lower b)"

text \<open>
  The \<^verbatim>\<open>LIKE\<close> operator: \<^verbatim>\<open>%\<close> matches any run of characters,
  \<^verbatim>\<open>_\<close> any one character, a backslash makes the next pattern character literal,
  and every other character matches itself up to case. The first argument is the
  pattern.
\<close>

fun like :: "string \<Rightarrow> string \<Rightarrow> bool" where
  "like [] s = (s = [])"
| "like (p # ps) [] =
     (if p = CHR ''%'' then like ps [] else False)"
| "like (p # ps) (c # cs) =
     (if p = CHR ''%'' then like ps (c # cs) \<or> like (p # ps) cs
      else if p = CHR ''_'' then like ps cs
      else if p = CHR 0x5C then
        (case ps of
           [] \<Rightarrow> c = p \<and> cs = []
         | q # qs \<Rightarrow> lower q = lower c \<and> like qs cs)
      else lower p = lower c \<and> like ps cs)"

text \<open>Decimal text of an integer, as the engine renders a number where a text is needed.\<close>

definition digit_char :: "nat \<Rightarrow> char" where
  "digit_char d = ''0123456789'' ! d"

function show_nat :: "nat \<Rightarrow> string" where
  "show_nat n = (if n < 10 then [digit_char n] else show_nat (n div 10) @ [digit_char (n mod 10)])"
  by pat_completeness auto
termination
  by (relation "measure id") auto

definition show_int :: "int \<Rightarrow> string" where
  "show_int i = (if i < 0 then CHR ''-'' # show_nat (nat (- i)) else show_nat (nat i))"

text \<open>Reading a text as an integer: an optional minus sign and decimal digits.\<close>

definition digit_val :: "char \<Rightarrow> nat option" where
  "digit_val c = map_of (zip ''0123456789'' [0, 1, 2, 3, 4, 5, 6, 7, 8, 9]) c"

fun parse_digits :: "nat \<Rightarrow> string \<Rightarrow> nat option" where
  "parse_digits acc [] = Some acc"
| "parse_digits acc (c # cs) =
     (case digit_val c of None \<Rightarrow> None | Some d \<Rightarrow> parse_digits (10 * acc + d) cs)"

definition parse_int :: "string \<Rightarrow> int option" where
  "parse_int s =
     (case s of
        [] \<Rightarrow> None
      | c # cs \<Rightarrow>
          if c = CHR ''-'' then
            (if cs = [] then None else map_option (\<lambda>n. - int n) (parse_digits 0 cs))
          else map_option int (parse_digits 0 s))"


section \<open>The database\<close>

subsection \<open>Tables\<close>

text \<open>
  A column of the \<^verbatim>\<open>students\<close> table, as \<^verbatim>\<open>SHOW COLUMNS\<close> describes it:
  its name, its type, whether it takes \<^verbatim>\<open>NULL\<close>, whether it carries a unique
  index, and whether the engine fills it when a statement leaves it out
  (\<^verbatim>\<open>AUTO_INCREMENT\<close>, \<^verbatim>\<open>DEFAULT CURRENT_TIMESTAMP\<close>).
\<close>

datatype coltype = TInt | TVarchar nat | TTimestamp

record column =
  Field :: string
  Type :: coltype
  Nullable :: bool
  Unique :: bool
  Auto :: bool

text \<open>A stored student row gives every column name its value.\<close>

type_synonym student = "string \<Rightarrow> sqlval"

record work_item =
  wi_id :: int
  wi_task :: string
  wi_status :: "string option"
  wi_start_date :: "string option"
  wi_deadline :: string
  wi_completed_date :: "string option"

datatype dialect = MySQL | MariaDB

record db =
  server :: dialect
  schema_name :: string
  student_columns :: "column list"
  students :: "student list"
  students_auto_increment :: int
  table_columns :: "string list"
  work_status :: "work_item list"
  work_status_auto_increment :: int
  current_timestamp :: string

text \<open>The columns \<^verbatim>\<open>createTables\<close> gives the \<^verbatim>\<open>students\<close> table.\<close>

definition created_columns :: "column list" where
  "created_columns =
     [\<lparr>Field = ''id'', Type = TInt, Nullable = False, Unique = True, Auto = True\<rparr>,
      \<lparr>Field = ''student_id'', Type = TVarchar 50, Nullable = False, Unique = True, Auto = False\<rparr>,
      \<lparr>Field = ''name'', Type = TVarchar 100, Nullable = False, Unique = False, Auto = False\<rparr>,
      \<lparr>Field = ''class'', Type = TVarchar 20, Nullable = False, Unique = False, Auto = False\<rparr>,
      \<lparr>Field = ''section'', Type = TVarchar 10, Nullable = False, Unique = False, Auto = False\<rparr>,
      \<lparr>Field = ''created_at'', Type = TTimestamp, Nullable = True, Unique = False, Auto = True\<rparr>]"

text \<open>The column \<^verbatim>\<open>ADD COLUMN name VARCHAR(255)\<close> defines.\<close>

definition dynamic_column :: "string \<Rightarrow> column" where
  "dynamic_column n =
     \<lparr>Field = n, Type = TVarchar 255, Nullable = True, Unique = False, Auto = False\<rparr>"

definition created_db :: "dialect \<Rightarrow> string \<Rightarrow> string \<Rightarrow> db" where
  "created_db d schema now =
     \<lparr>server = d, schema_name = schema, student_columns = created_columns, students = [],
      students_auto_increment = 1, table_columns = [], work_status = [],
      work_status_auto_increment = 1, current_timestamp = now\<rparr>"

subsection \<open>Column references\<close>

text \<open>
  \<^verbatim>\<open>mysql.escapeId\<close> quotes an identifier and splits it at every dot into a
  qualified name; the model keeps the parts. The engine resolves a (qualified) name to a
  column of \<^verbatim>\<open>students\<close>, comparing column names without regard to case.
\<close>

fun escapeId :: "string \<Rightarrow> string list" where
  "escapeId [] = [[]]"
| "escapeId (c # cs) =
     (if c = CHR ''.'' then [] # escapeId cs
      else (case escapeId cs of [] \<Rightarrow> [[c]] | p # ps \<Rightarrow> (c # p) # ps))"

definition find_column :: "column list \<Rightarrow> string \<Rightarrow> column option" where
  "find_column cols n = find (\<lambda>c. ci_eq (Field c) n) cols"

fun unqualified :: "db \<Rightarrow> string list \<Rightarrow> string option" where
  "unqualified db [c] = Some c"
| "unqualified db [t, c] = (if t = ''students'' then Some c else None)"
| "unqualified db [s, t, c] = (if s = schema_name db \<and> t = ''students'' then Some c else None)"
| "unqualified db _ = None"

definition column_ref :: "db \<Rightarrow> string \<Rightarrow> column option" where
  "column_ref db k =
     (case unqualified db (escapeId k) of
        None \<Rightarrow> None
      | Some c \<Rightarrow> find_column (student_columns db) c)"

fun column_refs :: "db \<Rightarrow> (string \<times> 'a) list \<Rightarrow> (column \<times> 'a) list option" where
  "column_refs db [] = Some []"
| "column_refs db ((k, v) # kvs) =
     (case column_ref db k of
        None \<Rightarrow> None
      | Some c \<Rightarrow> (case column_refs db kvs of None \<Rightarrow> None | Some cvs \<Rightarrow> Some ((c, v) # cvs)))"

subsection \<open>Storing a value in a column\<close>

definition timestamp_text :: "string \<Rightarrow> bool" where
  "timestamp_text s =
     list_all2 (\<lambda>p c. if p = CHR ''d'' then digit_val c \<noteq> None else c = p)
       ''dddd-dd-dd dd:dd:dd'' s"

text \<open>
  A statement parameter is \<^verbatim>\<open>NULL\<close> (\<open>None\<close>) or a literal, which the driver
  writes between quotes for a text and bare for a number. In strict mode a value that
  does not fit the column is an error, and so is \<^verbatim>\<open>NULL\<close> in a
  \<^verbatim>\<open>NOT NULL\<close> column. A timestamp is taken here in the one form
  \<^verbatim>\<open>YYYY-MM-DD hh:mm:ss\<close>. A number is stored in an integer column as it is and
  in a text column as its decimal text; its decimal text is not a timestamp of that
  form.
\<close>

datatype literal = Text string | Number int

fun literal_text :: "literal \<Rightarrow> string" where
  "literal_text (Text s) = s"
| "literal_text (Number k) = show_int k"

definition store_text :: "column \<Rightarrow> string \<Rightarrow> db_error + sqlval" where
  "store_text c s =
     (case Type c of
        TVarchar n \<Rightarrow> if length s \<le> n then Inr (SqlText s) else Inl ER_DATA_TOO_LONG
      | TInt \<Rightarrow>
          (case parse_int s of
             None \<Rightarrow> Inl ER_TRUNCATED_WRONG_VALUE
           | Some k \<Rightarrow> Inr (SqlInt k))
      | TTimestamp \<Rightarrow>
          if timestamp_text s then Inr (SqlText s) else Inl ER_TRUNCATED_WRONG_VALUE)"

definition store_value :: "column \<Rightarrow> literal \<Rightarrow> db_error + sqlval" where
  "store_value c l =
     (case l of
        Text s \<Rightarrow> store_text c s
      | Number k \<Rightarrow>
          (case Type c of
             TInt \<Rightarrow> Inr (SqlInt k)
           | _ \<Rightarrow> store_text c (show_int k)))"

definition insert_value :: "db \<Rightarrow> column \<Rightarrow> literal option \<Rightarrow> db_error + sqlval" where
  "insert_value db c v =
     (case v of
        None \<Rightarrow>
          if Auto c \<and> Type c = TInt then Inr (SqlInt (students_auto_increment db))
          else if Nullable c then Inr SqlNull
          else Inl ER_BAD_NULL_ERROR
      | Some l \<Rightarrow> store_value c l)"

definition update_value :: "column \<Rightarrow> literal option \<Rightarrow> db_error + sqlval" where
  "update_value c v =
     (case v of
        None \<Rightarrow> if Nullable c then Inr SqlNull else Inl ER_BAD_NULL_ERROR
      | Some l \<Rightarrow> store_value c l)"

text \<open>The value of a column an \<^verbatim>\<open>INSERT\<close> does not name.\<close>

definition default_value :: "db \<Rightarrow> column \<Rightarrow> db_error + sqlval" where
  "default_value db c =
     (if Auto c then
        (case Type c of
           TInt \<Rightarrow> Inr (SqlInt (students_auto_increment db))
         | _ \<Rightarrow> Inr (SqlText (current_timestamp db)))
      else if Nullable c then Inr SqlNull
      else Inl ER_NO_DEFAULT_FOR_FIELD)"

fun build_row :: "db \<Rightarrow> column list \<Rightarrow> (string \<rightharpoonup> literal option) \<Rightarrow> db_error + student" where
  "build_row db [] given = Inr (\<lambda>_. SqlNull)"
| "build_row db (c # cs) given =
     (case (case given (Field c) of
              None \<Rightarrow> default_value db c
            | Some v \<Rightarrow> insert_value db c v) of
        Inl e \<Rightarrow> Inl e
      | Inr x \<Rightarrow>
          (case build_row db cs given of
             Inl e \<Rightarrow> Inl e
           | Inr r \<Rightarrow> Inr (r(Field c := x))))"

text \<open>Equality of the unique indexes: \<^verbatim>\<open>NULL\<close> equals nothing, texts compare
  without regard to case.\<close>

fun sql_eq :: "sqlval \<Rightarrow> sqlval \<Rightarrow> bool" where
  "sql_eq (SqlInt a) (SqlInt b) = (a = b)"
| "sql_eq (SqlText a) (SqlText b) = ci_eq a b"
| "sql_eq _ _ = False"

definition duplicate_key :: "column list \<Rightarrow> student list \<Rightarrow> student \<Rightarrow> bool" where
  "duplicate_key cols rows r =
     list_ex (\<lambda>c. Unique c \<and> list_ex (\<lambda>r'. sql_eq (r' (Field c)) (r (Field c))) rows) cols"


subsection \<open>Statements on the students table\<close>

text \<open>
  \<^verbatim>\<open>INSERT INTO students (k1, ..., kn) VALUES (?, ..., ?)\<close>. The column names are
  resolved first, then the row is built (a value that does not fit, or a column without
  a value and without a default, is an error), and last the unique indexes are checked.
\<close>

definition named_values :: "(column \<times> 'a) list \<Rightarrow> (string \<times> 'a) list" where
  "named_values cvs = map (\<lambda>(c, v). (Field c, v)) cvs"

definition next_auto_increment :: "db \<Rightarrow> student \<Rightarrow> int" where
  "next_auto_increment db r =
     (case r ''id'' of
        SqlInt k \<Rightarrow> max (students_auto_increment db) (k + 1)
      | _ \<Rightarrow> students_auto_increment db)"

definition new_row :: "db \<Rightarrow> (string \<times> literal option) list \<Rightarrow> db_error + student" where
  "new_row db args =
     (case column_refs db args of
        None \<Rightarrow> Inl ER_BAD_FIELD_ERROR
      | Some cvs \<Rightarrow>
          if \<not> distinct (map fst (named_values cvs)) then Inl ER_FIELD_SPECIFIED_TWICE
          else build_row db (student_columns db) (map_of (named_values cvs)))"

definition insert_student :: "db \<Rightarrow> (string \<times> literal option) list \<Rightarrow> db_error + db" where
  "insert_student db args =
     (case new_row db args of
        Inl e \<Rightarrow> Inl e
      | Inr r \<Rightarrow>
          if duplicate_key (student_columns db) (students db) r then Inl ER_DUP_ENTRY
          else Inr (db\<lparr>students := students db @ [r],
                       students_auto_increment := next_auto_increment db r\<rparr>))"

text \<open>
  \<^verbatim>\<open>UPDATE students SET k1 = ?, ..., kn = ? WHERE student_id = ?\<close>. The rows
  are visited in turn; the assignments are made from left to right in every row whose
  \<^verbatim>\<open>student_id\<close> equals the parameter; a new value of a unique column that
  another row already has is a duplicate-key error, and an error leaves the table as it
  was.

  The comparison of the condition: nothing equals \<^verbatim>\<open>NULL\<close>; a text is compared
  with a text without regard to case; a text and a number are compared as numbers, and
  in strict mode the statement fails on a text that is not a number. A text is a number
  here when it is an optional minus sign and decimal digits; fractions, exponents and
  blanks around the digits are left out.
\<close>

fun assign :: "(column \<times> literal option) list \<Rightarrow> student \<Rightarrow> db_error + student" where
  "assign [] r = Inr r"
| "assign ((c, v) # cvs) r =
     (case update_value c v of
        Inl e \<Rightarrow> Inl e
      | Inr x \<Rightarrow> assign cvs (r(Field c := x)))"

definition key_conflict :: "column list \<Rightarrow> student list \<Rightarrow> student \<Rightarrow> student \<Rightarrow> bool" where
  "key_conflict cols others old new =
     list_ex (\<lambda>c. Unique c \<and> new (Field c) \<noteq> old (Field c) \<and>
                  list_ex (\<lambda>r'. sql_eq (r' (Field c)) (new (Field c))) others) cols"

fun matches :: "sqlval \<Rightarrow> literal option \<Rightarrow> db_error + bool" where
  "matches x None = Inr False"
| "matches SqlNull (Some l) = Inr False"
| "matches (SqlText t) (Some (Text s)) = Inr (ci_eq t s)"
| "matches (SqlText t) (Some (Number k)) =
     (case parse_int t of
        None \<Rightarrow> Inl ER_TRUNCATED_WRONG_VALUE
      | Some k' \<Rightarrow> Inr (k' = k))"
| "matches (SqlInt k') (Some (Text s)) =
     (case parse_int s of
        None \<Rightarrow> Inl ER_TRUNCATED_WRONG_VALUE
      | Some k \<Rightarrow> Inr (k' = k))"
| "matches (SqlInt k') (Some (Number k)) = Inr (k' = k)"

fun update_rows ::
  "column list \<Rightarrow> (column \<times> literal option) list \<Rightarrow> (student \<Rightarrow> db_error + bool) \<Rightarrow>
   student list \<Rightarrow> student list \<Rightarrow> db_error + student list" where
  "update_rows cols sets m seen [] = Inr seen"
| "update_rows cols sets m seen (r # rs) =
     (case m r of
        Inl e \<Rightarrow> Inl e
      | Inr hit \<Rightarrow>
          if hit then
            (case assign sets r of
               Inl e \<Rightarrow> Inl e
             | Inr r' \<Rightarrow>
                 if key_conflict cols (seen @ rs) r r' then Inl ER_DUP_ENTRY
                 else update_rows cols sets m (seen @ [r']) rs)
          else update_rows cols sets m (seen @ [r]) rs)"

definition update_student ::
  "db \<Rightarrow> (string \<times> literal option) list \<Rightarrow> literal option \<Rightarrow> db_error + db" where
  "update_student db sets sid =
     (case column_refs db sets of
        None \<Rightarrow> Inl ER_BAD_FIELD_ERROR
      | Some cvs \<Rightarrow>
          (case find_column (student_columns db) ''student_id'' of
             None \<Rightarrow> Inl ER_BAD_FIELD_ERROR
           | Some k \<Rightarrow>
               (case update_rows (student_columns db) cvs (\<lambda>r. matches (r (Field k)) sid)
                       [] (students db) of
                  Inl e \<Rightarrow> Inl e
                | Inr rows \<Rightarrow> Inr (db\<lparr>students := rows\<rparr>))))"

text \<open>
  \<^verbatim>\<open>INSERT ... ON DUPLICATE KEY UPDATE k1 = VALUES(k1), ..., kn = VALUES(kn)\<close>:
  when the new row collides with a stored row on a unique index, that row takes, for
  every named column, the value the insert would have stored.
\<close>

definition first_duplicate :: "column list \<Rightarrow> student list \<Rightarrow> student \<Rightarrow> nat option" where
  "first_duplicate cols rows r =
     (case filter (\<lambda>c. Unique c \<and> list_ex (\<lambda>r'. sql_eq (r' (Field c)) (r (Field c))) rows) cols of
        [] \<Rightarrow> None
      | c # _ \<Rightarrow> find (\<lambda>i. sql_eq ((rows ! i) (Field c)) (r (Field c))) [0 ..< length rows])"

definition insert_on_duplicate_key_update ::
  "db \<Rightarrow> (string \<times> literal option) list \<Rightarrow> db_error + db" where
  "insert_on_duplicate_key_update db args =
     (case new_row db args of
        Inl e \<Rightarrow> Inl e
      | Inr r \<Rightarrow>
          (case first_duplicate (student_columns db) (students db) r of
             None \<Rightarrow>
               Inr (db\<lparr>students := students db @ [r],
                        students_auto_increment := next_auto_increment db r\<rparr>)
           | Some i \<Rightarrow>
               (let old = students db ! i;
                    named = (case column_refs db args of None \<Rightarrow> [] | Some cvs \<Rightarrow> map fst (named_values cvs));
                    new = fold (\<lambda>f x. x(f := r f)) named old
                in if key_conflict (student_columns db)
                        (take i (students db) @ drop (Suc i) (students db)) old new
                   then Inl ER_DUP_ENTRY
                   else Inr (db\<lparr>students := (students db)[i := new]\<rparr>))))"

text \<open>
  \<^verbatim>\<open>SELECT * FROM students WHERE 1=1 AND k1 LIKE ? ... AND kn LIKE ?\<close>. A
  \<^verbatim>\<open>NULL\<close> cell matches no pattern; a number is matched as its decimal text.
\<close>

fun cell_like :: "string \<Rightarrow> sqlval \<Rightarrow> bool" where
  "cell_like p SqlNull = False"
| "cell_like p (SqlInt k) = like p (show_int k)"
| "cell_like p (SqlText s) = like p s"

definition select_students :: "db \<Rightarrow> (string \<times> string) list \<Rightarrow> db_error + student list" where
  "select_students db conds =
     (case column_refs db conds of
        None \<Rightarrow> Inl ER_BAD_FIELD_ERROR
      | Some cps \<Rightarrow>
          Inr (filter (\<lambda>r. list_all (\<lambda>(c, p). cell_like p (r (Field c))) cps) (students db)))"

subsection \<open>Statements on the schema and on the column registry\<close>

text \<open>\<^verbatim>\<open>SHOW COLUMNS FROM students\<close>, with and without a \<^verbatim>\<open>LIKE\<close> pattern.\<close>

definition show_columns :: "db \<Rightarrow> column list" where
  "show_columns db = student_columns db"

definition show_columns_like :: "db \<Rightarrow> string \<Rightarrow> column list" where
  "show_columns_like db pattern = filter (\<lambda>c. like pattern (Field c)) (student_columns db)"

text \<open>
  A column name is legal when it is not empty, has at most 64 characters and does not end
  with a space.
\<close>

definition legal_name :: "string \<Rightarrow> bool" where
  "legal_name n = (n \<noteq> [] \<and> length n \<le> 64 \<and> last n \<noteq> CHR '' '')"

text \<open>\<^verbatim>\<open>ALTER TABLE students ADD COLUMN name VARCHAR(255)\<close>: the new column is
  \<^verbatim>\<open>NULL\<close> in every row.\<close>

definition alter_add_column :: "db \<Rightarrow> string \<Rightarrow> db_error + db" where
  "alter_add_column db name =
     (case unqualified db (escapeId name) of
        None \<Rightarrow> Inl ER_PARSE_ERROR
      | Some n \<Rightarrow>
          if \<not> legal_name n then Inl ER_WRONG_COLUMN_NAME
          else if find_column (student_columns db) n \<noteq> None then Inl ER_DUP_FIELDNAME
          else Inr (db\<lparr>student_columns := student_columns db @ [dynamic_column n],
                       students := map (\<lambda>r. r(n := SqlNull)) (students db)\<rparr>))"

text \<open>\<^verbatim>\<open>ALTER TABLE students ADD COLUMN IF NOT EXISTS name VARCHAR(255)\<close> is MariaDB's
  statement; MySQL has no such clause and rejects it.\<close>

definition alter_add_column_if_not_exists :: "db \<Rightarrow> string \<Rightarrow> db_error + db" where
  "alter_add_column_if_not_exists db name =
     (case server db of
        MySQL \<Rightarrow> Inl ER_PARSE_ERROR
      | MariaDB \<Rightarrow>
          (case alter_add_column db name of
             Inl e \<Rightarrow> if e = ER_DUP_FIELDNAME then Inr db else Inl e
           | Inr db' \<Rightarrow> Inr db'))"

text \<open>\<^verbatim>\<open>ALTER TABLE students DROP COLUMN name\<close>.\<close>

definition alter_drop_column :: "db \<Rightarrow> string \<Rightarrow> db_error + db" where
  "alter_drop_column db name =
     (case column_ref db name of
        None \<Rightarrow> Inl ER_CANT_DROP_FIELD_OR_KEY
      | Some c \<Rightarrow>
          Inr (db\<lparr>student_columns := filter (\<lambda>c'. Field c' \<noteq> Field c) (student_columns db),
                   students := map (\<lambda>r. r(Field c := SqlNull)) (students db)\<rparr>))"

text \<open>
  The registry \<^verbatim>\<open>table_columns\<close>, of which the handlers use the
  \<^verbatim>\<open>column_name\<close> only: a \<^verbatim>\<open>VARCHAR(100) NOT NULL UNIQUE\<close>. The list
  keeps the rows in the order of their insertion.
\<close>

definition select_table_columns :: "db \<Rightarrow> string list" where
  "select_table_columns db = table_columns db"


definition insert_table_columns :: "db \<Rightarrow> string \<Rightarrow> db_error + db" where
  "insert_table_columns db name =
     (if length name > 100 then Inl ER_DATA_TOO_LONG
      else if list_ex (\<lambda>n. ci_eq n name) (table_columns db) then Inl ER_DUP_ENTRY
      else Inr (db\<lparr>table_columns := table_columns db @ [name]\<rparr>))"

text \<open>\<^verbatim>\<open>INSERT IGNORE\<close> turns the errors into warnings: a name that is too long is
  cut, a duplicate is skipped.\<close>

definition insert_ignore_table_columns :: "db \<Rightarrow> string \<Rightarrow> db" where
  "insert_ignore_table_columns db name =
     (case insert_table_columns db (take 100 name) of
        Inl e \<Rightarrow> db
      | Inr db' \<Rightarrow> db')"

definition delete_table_columns :: "db \<Rightarrow> string \<Rightarrow> db" where
  "delete_table_columns db name =
     db\<lparr>table_columns := filter (\<lambda>n. \<not> ci_eq n name) (table_columns db)\<rparr>"


subsection \<open>Statements on the work-status table\<close>

definition enum_status :: "string list" where
  "enum_status = [''pending'', ''started'', ''completed'']"

text \<open>
  A value for the \<^verbatim>\<open>ENUM\<close> column is the text of one of its members, up to
  case, or the number of one, counted from 1. A value for a \<^verbatim>\<open>DATE\<close> column is
  taken here in the one form \<^verbatim>\<open>YYYY-MM-DD\<close>, without a check of the calendar. A
  \<^verbatim>\<open>NULL\<close> is stored as it is in both.
\<close>

definition store_status :: "literal option \<Rightarrow> db_error + string option" where
  "store_status v =
     (case v of
        None \<Rightarrow> Inr None
      | Some (Text s) \<Rightarrow>
          (case find (\<lambda>e. ci_eq e s) enum_status of
             None \<Rightarrow> Inl ER_TRUNCATED_WRONG_VALUE
           | Some e \<Rightarrow> Inr (Some e))
      | Some (Number k) \<Rightarrow>
          if 1 \<le> k \<and> k \<le> int (length enum_status) then Inr (Some (enum_status ! nat (k - 1)))
          else Inl ER_TRUNCATED_WRONG_VALUE)"

definition date_text :: "string \<Rightarrow> bool" where
  "date_text s =
     list_all2 (\<lambda>p c. if p = CHR ''d'' then digit_val c \<noteq> None else c = p) ''dddd-dd-dd'' s"

definition store_date :: "literal option \<Rightarrow> db_error + string option" where
  "store_date v =
     (case v of
        None \<Rightarrow> Inr None
      | Some l \<Rightarrow>
          if date_text (literal_text l) then Inr (Some (literal_text l))
          else Inl ER_TRUNCATED_WRONG_VALUE)"

text \<open>
  \<^verbatim>\<open>INSERT INTO work_status (task, status, start_date, deadline) VALUES (?, ?, ?, ?)\<close>.
  All four columns are named, so each takes the parameter it is given; \<^verbatim>\<open>task\<close>
  and \<^verbatim>\<open>deadline\<close> are \<^verbatim>\<open>NOT NULL\<close>. The result carries the
  \<^verbatim>\<open>insertId\<close>.
\<close>

definition insert_work_status ::
  "db \<Rightarrow> literal option \<Rightarrow> literal option \<Rightarrow> literal option \<Rightarrow> literal option \<Rightarrow>
   db_error + (db \<times> int)" where
  "insert_work_status db task status start_date deadline =
     (case task of
        None \<Rightarrow> Inl ER_BAD_NULL_ERROR
      | Some t \<Rightarrow>
          if length (literal_text t) > 255 then Inl ER_DATA_TOO_LONG
          else
            (case store_status status of
               Inl e \<Rightarrow> Inl e
             | Inr st \<Rightarrow>
                 (case store_date start_date of
                    Inl e \<Rightarrow> Inl e
                  | Inr sd \<Rightarrow>
                      (case deadline of
                         None \<Rightarrow> Inl ER_BAD_NULL_ERROR
                       | Some d \<Rightarrow>
                           if \<not> date_text (literal_text d) then Inl ER_TRUNCATED_WRONG_VALUE
                           else
                             Inr (db\<lparr>work_status := work_status db @
                                        [\<lparr>wi_id = work_status_auto_increment db,
                                          wi_task = literal_text t,
                                          wi_status = st, wi_start_date = sd,
                                          wi_deadline = literal_text d,
                                          wi_completed_date = None\<rparr>],
                                      work_status_auto_increment :=
                                        work_status_auto_increment db + 1\<rparr>,
                                  work_status_auto_increment db)))))"


section \<open>The route handlers of server.js\<close>

text \<open>
  A handler takes the database and the request and gives the database it leaves behind
  and its response: \<open>Inr\<close> the JSON body, \<open>Inl\<close> the error status.
\<close>

definition baseColumns :: "string list" where
  "baseColumns = [''student_id'', ''name'', ''class'', ''section'']"

text \<open>\<^verbatim>\<open>GET /api/columns\<close>\<close>

definition get_api_columns :: "db \<Rightarrow> string list" where
  "get_api_columns db =
     (let dynamicColumns = select_table_columns db
      in baseColumns @ dynamicColumns)"


text \<open>\<^verbatim>\<open>DELETE /api/columns/:columnName\<close>\<close>

definition delete_api_columns :: "db \<Rightarrow> string \<Rightarrow> db \<times> (http_error + string)" where
  "delete_api_columns db columnName =
     (if columnName \<in> set baseColumns then (db, Inl (Status400 ''Cannot delete base columns''))
      else
        (let db1 = delete_table_columns db columnName in
         case alter_drop_column db1 columnName of
           Inl e \<Rightarrow> (db1, Inl (Status500 e))
         | Inr db2 \<Rightarrow> (db2, Inr ''Column deleted successfully'')))"

text \<open>
  \<^verbatim>\<open>POST /api/upload\<close>. A parsed row is a JavaScript object, here the list of its
  entries in the order of \<^verbatim>\<open>Object.keys\<close>; \<^verbatim>\<open>row[c]\<close> is
  \<^verbatim>\<open>undefined\<close> for a key the row does not have.
\<close>

type_synonym row = "(string \<times> jsval) list"

definition property :: "row \<Rightarrow> string \<Rightarrow> jsval" where
  "property row c = (case map_of row c of None \<Rightarrow> Undefined | Some v \<Rightarrow> v)"

text \<open>The test \<^verbatim>\<open>v !== undefined && v !== null && v !== ''\<close>.\<close>

definition filled :: "jsval \<Rightarrow> bool" where
  "filled v = (v \<noteq> Undefined \<and> v \<noteq> Null \<and> v \<noteq> Str [])"

text \<open>
  A value as a statement parameter, as the driver writes it into the statement:
  \<^verbatim>\<open>undefined\<close> and \<^verbatim>\<open>null\<close> as \<^verbatim>\<open>NULL\<close>, a text between quotes, a
  number bare, and a boolean as \<^verbatim>\<open>true\<close> or \<^verbatim>\<open>false\<close>, which the engine
  reads as 1 and 0.
\<close>

fun sql_param :: "jsval \<Rightarrow> literal option" where
  "sql_param Undefined = None"
| "sql_param Null = None"
| "sql_param (Str s) = Some (Text s)"
| "sql_param (Num k) = Some (Number k)"
| "sql_param (Bool b) = Some (Number (if b then 1 else 0))"

record upload_response =
  recordsProcessed :: nat
  recordsFailed :: nat
  newColumnsAdded :: "string list"

text \<open>The body of the loop over \<^verbatim>\<open>newColumns\<close>; its \<^verbatim>\<open>catch\<close> only logs.\<close>

definition add_new_column :: "db \<Rightarrow> string \<Rightarrow> db" where
  "add_new_column db col =
     (let db1 = insert_ignore_table_columns db col;
          columns = show_columns_like db1 col
      in if length columns = 0 then
           (case alter_add_column db1 col of
              Inl e \<Rightarrow> db1
            | Inr db2 \<Rightarrow> db2)
         else db1)"

text \<open>
  The body of the loop over the rows, on the database and the two counters: an insert of
  the filled entries; on a duplicate key an update of the filled columns other than
  \<^verbatim>\<open>student_id\<close>; any other error counts the row as failed.
\<close>

definition insert_or_update :: "db \<times> nat \<times> nat \<Rightarrow> row \<Rightarrow> db \<times> nat \<times> nat" where
  "insert_or_update state row =
     (case state of (db, insertedCount, errorCount) \<Rightarrow>
        (let validEntries = filter (\<lambda>(column, val). filled val) row in
         if length validEntries = 0 then (db, insertedCount, errorCount)
         else
           (case insert_student db (map (\<lambda>(column, val). (column, sql_param val)) validEntries) of
              Inr db' \<Rightarrow> (db', insertedCount + 1, errorCount)
            | Inl err \<Rightarrow>
                if err = ER_DUP_ENTRY then
                  (let columns = map fst row;
                       updateColumns =
                         filter (\<lambda>c. c \<noteq> ''student_id'' \<and> filled (property row c)) columns
                   in if length updateColumns > 0 then
                        (case update_student db
                                (map (\<lambda>c. (c, sql_param (property row c))) updateColumns)
                                (sql_param (property row ''student_id'')) of
                           Inr db' \<Rightarrow> (db', insertedCount + 1, errorCount)
                         | Inl updateErr \<Rightarrow> (db, insertedCount, errorCount + 1))
                      else (db, insertedCount, errorCount))
                else (db, insertedCount, errorCount + 1))))"

definition post_api_upload :: "db \<Rightarrow> row list option \<Rightarrow> db \<times> (http_error + upload_response)" where
  "post_api_upload db file =
     (case file of
        None \<Rightarrow> (db, Inl (Status400 ''No file uploaded''))
      | Some jsonData \<Rightarrow>
          (case jsonData of
             [] \<Rightarrow> (db, Inl (Status400 ''Excel file is empty''))
           | first # _ \<Rightarrow>
               (let existingTableColumns = map Field (show_columns db);
                    excelColumns = map fst first;
                    newColumns = filter (\<lambda>col. col \<notin> set existingTableColumns) excelColumns;
                    db1 = fold (\<lambda>col d. add_new_column d col) newColumns db
                in case fold (\<lambda>row state. insert_or_update state row) jsonData (db1, 0, 0) of
                     (db2, insertedCount, errorCount) \<Rightarrow>
                       (db2, Inr \<lparr>recordsProcessed = insertedCount, recordsFailed = errorCount,
                                  newColumnsAdded = newColumns\<rparr>))))"

text \<open>\<^verbatim>\<open>GET /api/students\<close>: a filter with an empty value adds no condition.\<close>

definition get_api_students ::
  "db \<Rightarrow> (string \<times> string) list \<Rightarrow> http_error + (student list \<times> nat)" where
  "get_api_students db filters =
     (let params = map (\<lambda>(key, val). (key, ''%'' @ val @ ''%''))
                     (filter (\<lambda>(key, val). val \<noteq> []) filters)
      in case select_students db params of
           Inl e \<Rightarrow> Inl (Status500 e)
         | Inr rows \<Rightarrow> Inr (rows, length rows))"

text \<open>\<^verbatim>\<open>POST /api/work-status\<close>\<close>

record work_status_body =
  task :: jsval
  status :: jsval
  startDate :: jsval
  deadline :: jsval

definition post_api_work_status :: "db \<Rightarrow> work_status_body \<Rightarrow> db \<times> (http_error + int)" where
  "post_api_work_status db body =
     (case insert_work_status db (sql_param (task body)) (sql_param (status body))
             (sql_param (startDate body)) (sql_param (deadline body)) of
        Inl e \<Rightarrow> (db, Inl (Status500 e))
      | Inr (db', insertId) \<Rightarrow> (db', Inr insertId))"


section \<open>The handlers of the second server file that differ\<close>


text \<open>The loop over \<^verbatim>\<open>newColumns\<close> has no \<^verbatim>\<open>catch\<close> of its own: an error
  ends the request.\<close>

fun add_new_columns_2 :: "db \<Rightarrow> string list \<Rightarrow> db \<times> db_error option" where
  "add_new_columns_2 db [] = (db, None)"
| "add_new_columns_2 db (col # cols) =
     (let db1 = insert_ignore_table_columns db col in
      case alter_add_column_if_not_exists db1 col of
        Inl e \<Rightarrow> (db1, Some e)
      | Inr db2 \<Rightarrow> add_new_columns_2 db2 cols)"

definition insert_row_2 :: "db \<times> nat \<Rightarrow> row \<Rightarrow> db \<times> nat" where
  "insert_row_2 state row =
     (case state of (db, insertedCount) \<Rightarrow>
        (case insert_on_duplicate_key_update db (map (\<lambda>(column, val). (column, sql_param val)) row) of
           Inr db' \<Rightarrow> (db', insertedCount + 1)
         | Inl err \<Rightarrow> (db, insertedCount)))"

text \<open>The response has \<^verbatim>\<open>recordsProcessed\<close> and \<^verbatim>\<open>newColumnsAdded\<close> only.\<close>

definition post_api_upload_2 ::
  "db \<Rightarrow> row list option \<Rightarrow> db \<times> (http_error + nat \<times> string list)" where
  "post_api_upload_2 db file =
     (case file of
        None \<Rightarrow> (db, Inl (Status400 ''No file uploaded''))
      | Some jsonData \<Rightarrow>
          (case jsonData of
             [] \<Rightarrow> (db, Inl (Status400 ''Excel file is empty''))
           | first # _ \<Rightarrow>
               (let existingColNames = select_table_columns db;
                    allExistingColumns = baseColumns @ existingColNames;
                    excelColumns = map fst first;
                    newColumns = filter (\<lambda>col. col \<notin> set allExistingColumns) excelColumns
                in case add_new_columns_2 db newColumns of
                     (db1, Some e) \<Rightarrow> (db1, Inl (Status500 e))
                   | (db1, None) \<Rightarrow>
                       (case fold (\<lambda>row state. insert_row_2 state row) jsonData (db1, 0) of
                          (db2, insertedCount) \<Rightarrow> (db2, Inr (insertedCount, newColumns))))))"


section \<open>Notions used in the statements\<close>

text \<open>A row all of whose cells are \<^verbatim>\<open>undefined\<close>, \<^verbatim>\<open>null\<close> or the empty
  text.\<close>

definition blank_row :: "row \<Rightarrow> bool" where
  "blank_row row = list_all (\<lambda>(k, v). \<not> filled v) row"


text \<open>The spec's match of a filter: the value occurs in the text as a substring, up to
  case: at some offset, the next characters of the text are the value's.\<close>

definition contains_ci :: "string \<Rightarrow> string \<Rightarrow> bool" where
  "contains_ci v t = list_ex (\<lambda>k. ci_eq (take (length v) (drop k t)) v) [0 ..< Suc (length t)]"




text \<open>The conditions \<^verbatim>\<open>GET /api/students\<close> sends, as pairs of key and pattern.\<close>

definition like_params :: "(string \<times> string) list \<Rightarrow> (string \<times> string) list" where
  "like_params filters =
     map (\<lambda>(key, val). (key, ''%'' @ val @ ''%'')) (filter (\<lambda>(key, val). val \<noteq> []) filters)"


text \<open>The headers of the first row that \<^verbatim>\<open>POST /api/upload\<close> takes for new
  columns, and the pieces of its loop body.\<close>

definition new_headers :: "db \<Rightarrow> row \<Rightarrow> string list" where
  "new_headers db first = filter (\<lambda>col. col \<notin> set (map Field (show_columns db))) (map fst first)"

definition validEntries_of :: "row \<Rightarrow> row" where
  "validEntries_of r = filter (\<lambda>(column, val). filled val) r"

definition insert_args :: "row \<Rightarrow> (string \<times> literal option) list" where
  "insert_args r = map (\<lambda>(column, val). (column, sql_param val)) (validEntries_of r)"

definition updateColumns_of :: "row \<Rightarrow> string list" where
  "updateColumns_of r = filter (\<lambda>c. c \<noteq> ''student_id'' \<and> filled (property r c)) (map fst r)"

definition update_args :: "row \<Rightarrow> (string \<times> literal option) list" where
  "update_args r = map (\<lambda>c. (c, sql_param (property r c))) (updateColumns_of r)"

text \<open>
  A sound students table: its column names differ from one another up to case and have no
  dot, and the column \<^verbatim>\<open>student_id\<close> is there and requires a value.
\<close>

definition table_ok :: "db \<Rightarrow> bool" where
  "table_ok db =
     (distinct (map (\<lambda>c. map lower (Field c)) (student_columns db)) \<and>
      list_all (\<lambda>c. CHR ''.'' \<notin> set (Field c)) (student_columns db) \<and>
      list_ex (\<lambda>c. Field c = ''student_id'' \<and> \<not> Auto c \<and> \<not> Nullable c) (student_columns db))"

text \<open>
  New headers the upload can turn into columns, given the names of the columns there
  are: each header is a legal name without a dot, differs up to case from every column
  name and from the headers before it, and, read as a \<^verbatim>\<open>LIKE\<close> pattern, matches
  none of them.
\<close>

fun addable :: "string list \<Rightarrow> string list \<Rightarrow> bool" where
  "addable names [] = True"
| "addable names (h # hs) =
     (legal_name h \<and> CHR ''.'' \<notin> set h \<and>
      \<not> list_ex (\<lambda>n. ci_eq n h \<or> like h n) names \<and>
      addable (names @ [h]) hs)"

definition headers_ok :: "db \<Rightarrow> string list \<Rightarrow> bool" where
  "headers_ok db hs = addable (map Field (student_columns db)) hs"

text \<open>
  A cell fits when it is not filled, or stands under a new header and the text stored
  for it has at most 255 characters, or stands under the exact name of a text column
  that is long enough for that text; only the cell of \<^verbatim>\<open>student_id\<close> may stand
  under a column with a unique index. A row is complete when it fills every column that
  requires a value.
\<close>

definition cell_fits :: "db \<Rightarrow> string list \<Rightarrow> string \<times> jsval \<Rightarrow> bool" where
  "cell_fits db hs kv =
     (case kv of (k, v) \<Rightarrow>
        \<not> filled v \<or>
        (case sql_param v of
           None \<Rightarrow> True
         | Some l \<Rightarrow>
             (k \<in> set hs \<and> length (literal_text l) \<le> 255) \<or>
             list_ex (\<lambda>c. Field c = k \<and>
                          (case Type c of TVarchar n \<Rightarrow> length (literal_text l) \<le> n | _ \<Rightarrow> False) \<and>
                          (Unique c \<longrightarrow> k = ''student_id'')) (student_columns db)))"

definition complete_row :: "db \<Rightarrow> row \<Rightarrow> bool" where
  "complete_row db r =
     list_all (\<lambda>c. Auto c \<or> Nullable c \<or> filled (property r (Field c))) (student_columns db)"

text \<open>
  A valid row: its keys are distinct, its cells fit, it is complete, and it fills a cell
  other than \<^verbatim>\<open>student_id\<close>. A row that is missing its student id and is
  otherwise well-formed: distinct keys, fitting cells, some filled cell, and no filled
  \<^verbatim>\<open>student_id\<close>.
\<close>

definition valid_row :: "db \<Rightarrow> string list \<Rightarrow> row \<Rightarrow> bool" where
  "valid_row db hs r =
     (distinct (map fst r) \<and> list_all (cell_fits db hs) r \<and> complete_row db r \<and>
      list_ex (\<lambda>(k, v). k \<noteq> ''student_id'' \<and> filled v) r)"

definition row_without_student_id :: "db \<Rightarrow> string list \<Rightarrow> row \<Rightarrow> bool" where
  "row_without_student_id db hs r =
     (distinct (map fst r) \<and> list_all (cell_fits db hs) r \<and> \<not> blank_row r \<and>
      \<not> filled (property r ''student_id''))"

text \<open>
  The student id of a row as the statements get it, and whether a comparison with it
  succeeds. The student ids of a sheet can be compared with those of the table when no
  comparison of the student id of a row with a stored one, or with the text the table
  stores for the student id of a row of the sheet, fails: a text is always compared
  with a text, and where a number is compared with a text, the text is a number.
\<close>

definition student_id_of :: "row \<Rightarrow> literal option" where
  "student_id_of r = sql_param (property r ''student_id'')"

definition comparable :: "sqlval \<Rightarrow> literal option \<Rightarrow> bool" where
  "comparable x p = (case matches x p of Inl e \<Rightarrow> False | Inr hit \<Rightarrow> True)"

definition ids_comparable :: "db \<Rightarrow> row list \<Rightarrow> bool" where
  "ids_comparable db rows =
     list_all (\<lambda>r.
        list_all (\<lambda>st. comparable (st ''student_id'') (student_id_of r)) (students db) \<and>
        list_all (\<lambda>r'. case student_id_of r' of
                          None \<Rightarrow> True
                        | Some l \<Rightarrow> comparable (SqlText (literal_text l)) (student_id_of r)) rows)
       rows"

text \<open>
  What a row supplies: the value \<open>x\<close> is supplied for the column named \<open>f\<close> when
  the row has a filled cell whose key refers to that column and whose value is stored
  as \<open>x\<close>; for an update the cell of the key \<^verbatim>\<open>student_id\<close> does not count.
  What an insert leaves unset: the column's default, \<^verbatim>\<open>NULL\<close> where it has none.
\<close>

definition supplied :: "db \<Rightarrow> row \<Rightarrow> bool \<Rightarrow> string \<Rightarrow> sqlval \<Rightarrow> bool" where
  "supplied db row on_update f x =
     list_ex (\<lambda>(k, v).
        (on_update \<longrightarrow> k \<noteq> ''student_id'') \<and> filled v \<and>
        (case sql_param v of
           None \<Rightarrow> False
         | Some l \<Rightarrow>
             (case column_ref db k of
                None \<Rightarrow> False
              | Some c \<Rightarrow> Field c = f \<and> store_value c l = Inr x))) row"

definition unset :: "db \<Rightarrow> string \<Rightarrow> sqlval" where
  "unset db f =
     (case find (\<lambda>c. Field c = f) (student_columns db) of
        None \<Rightarrow> SqlNull
      | Some c \<Rightarrow> (case default_value db c of Inl e \<Rightarrow> SqlNull | Inr x \<Rightarrow> x))"

text \<open>No key of the row other than \<^verbatim>\<open>student_id\<close> itself refers to the column
  \<^verbatim>\<open>student_id\<close>.\<close>

definition names_student_id_once :: "db \<Rightarrow> row \<Rightarrow> bool" where
  "names_student_id_once db row =
     list_all (\<lambda>(k, v). k = ''student_id'' \<or>
                 (case column_ref db k of None \<Rightarrow> True | Some c \<Rightarrow> Field c \<noteq> ''student_id'')) row"

section \<open>Example data\<close>

definition school :: db where
  "school = created_db MySQL ''school'' ''2024-01-01 00:00:00''"

definition alice :: row where
  "alice = [(''student_id'', Str ''S1''), (''name'', Str ''Alice''),
            (''class'', Str ''Class 10A''), (''section'', Str ''A'')]"

definition empty_cells :: row where
  "empty_cells = [(''student_id'', Str []), (''name'', Null), (''class'', Undefined)]"


definition enrolled :: db where
  "enrolled = fst (post_api_upload school (Some [alice]))"

definition pupil :: "string \<Rightarrow> row" where
  "pupil sid = [(''student_id'', Str sid), (''name'', Str (''Pupil '' @ sid)),
                (''class'', Str ''10''), (''section'', Str ''A'')]"

definition no_student_id :: row where
  "no_student_id = [(''name'', Str ''Bob''), (''class'', Str ''10''), (''section'', Str ''B'')]"

definition nine_pupils_before :: "row list" where
  "nine_pupils_before = map pupil [''S1'', ''S2'', ''S3'']"

definition nine_pupils_after :: "row list" where
  "nine_pupils_after = map pupil [''S4'', ''S5'', ''S6'', ''S7'', ''S8'', ''S9'']"

definition ten_rows :: "row list" where
  "ten_rows = nine_pupils_before @ no_student_id # nine_pupils_after"

definition alice_with_phone :: row where
  "alice_with_phone = alice @ [(''phone'', Str ''555'')]"

definition with_phone :: db where
  "with_phone = fst (post_api_upload school (Some [alice_with_phone]))"

definition alice_blank_phone :: row where
  "alice_blank_phone = alice @ [(''phone'', Str [])]"






section \<open>Properties of the handlers\<close>

subsection \<open>Removing a fixed column\<close>

text \<open>
  C3. Whatever the database holds, \<^verbatim>\<open>DELETE /api/columns/:columnName\<close> with one of
  the four fixed names (the code's \<^verbatim>\<open>student_id\<close> is the spec's
  \<^verbatim>\<open>studentId\<close>) answers 400 \<^verbatim>\<open>Cannot delete base columns\<close> and leaves the
  database as it was: neither the registry nor the table loses anything.
\<close>

theorem removeColumn_fixed_name_rejected:
  "columnName \<in> {''student_id'', ''name'', ''class'', ''section''} \<Longrightarrow>
   delete_api_columns db columnName = (db, Inl (Status400 ''Cannot delete base columns''))"
  by (auto simp: delete_api_columns_def baseColumns_def)

theorem removeColumn_fixed_name_rejected_witness:
  "''section'' \<in> {''student_id'', ''name'', ''class'', ''section''} \<and>
   delete_api_columns school ''section'' = (school, Inl (Status400 ''Cannot delete base columns''))"
  using removeColumn_fixed_name_rejected [of "''section''" school]
  by simp

subsection \<open>Updating a work item that does not exist\<close>



subsection \<open>Rows without a filled cell\<close>

lemma insert_or_update_blank:
  "blank_row row \<Longrightarrow> insert_or_update (db, n, e) row = (db, n, e)"
proof -
  assume "blank_row row"
  then have "filter (\<lambda>(column, val). filled val) row = []"
    by (auto simp: blank_row_def list_all_iff filter_empty_conv)
  then show ?thesis by (simp add: insert_or_update_def)
qed

lemma insert_or_update_counts:
  "insert_or_update (db, n, e) row = (db', n', e') \<Longrightarrow>
   n' + e' \<le> n + e + (if blank_row row then 0 else 1) \<and> n \<le> n' \<and> e \<le> e'"
proof (cases "blank_row row")
  case True
  assume "insert_or_update (db, n, e) row = (db', n', e')"
  with True show ?thesis by (simp add: insert_or_update_blank)
next
  case False
  assume "insert_or_update (db, n, e) row = (db', n', e')"
  then show ?thesis using False
    by (auto simp: insert_or_update_def Let_def split: if_splits sum.splits)
qed

lemma fold_insert_or_update_counts:
  "fold (\<lambda>row state. insert_or_update state row) rows (db, n, e) = (db', n', e') \<Longrightarrow>
   n' + e' + length (filter blank_row rows) \<le> n + e + length rows"
proof (induction rows arbitrary: db n e)
  case Nil
  then show ?case by simp
next
  case (Cons r rs)
  obtain d1 n1 e1 where s: "insert_or_update (db, n, e) r = (d1, n1, e1)"
    by (metis prod_cases3)
  from Cons.prems s
  have "fold (\<lambda>row state. insert_or_update state row) rs (d1, n1, e1) = (db', n', e')"
    by simp
  from Cons.IH [OF this] insert_or_update_counts [OF s] show ?case
    by (auto split: if_splits)
qed

text \<open>
  C10. The loop body leaves the database and both counters as they are on a row without a
  filled cell, and the two tallies of a finished upload count no such row: together with
  the number of these rows they stay within the number of parsed rows, so a sheet with
  such a row reports fewer processed and failed rows than it has.
\<close>

theorem blank_row_counted_nowhere:
  "(blank_row row \<longrightarrow> insert_or_update (db, n, e) row = (db, n, e)) \<and>
   (post_api_upload db (Some jsonData) = (db', Inr res) \<longrightarrow>
      recordsProcessed res + recordsFailed res + length (filter blank_row jsonData)
        \<le> length jsonData)"
proof (intro conjI impI)
  assume "blank_row row"
  then show "insert_or_update (db, n, e) row = (db, n, e)"
    by (rule insert_or_update_blank)
next
  assume up: "post_api_upload db (Some jsonData) = (db', Inr res)"
  show "recordsProcessed res + recordsFailed res + length (filter blank_row jsonData)
          \<le> length jsonData"
  proof (cases jsonData)
    case Nil
    with up show ?thesis by (simp add: post_api_upload_def)
  next
    case (Cons first rest)
    define db1 where
      "db1 = fold (\<lambda>col d. add_new_column d col)
               (filter (\<lambda>col. col \<notin> set (map Field (show_columns db))) (map fst first)) db"
    obtain d2 n2 e2 where
      f: "fold (\<lambda>row state. insert_or_update state row) jsonData (db1, 0, 0) = (d2, n2, e2)"
      by (metis prod_cases3)
    from up Cons f have "recordsProcessed res = n2" and "recordsFailed res = e2"
      by (auto simp: post_api_upload_def Let_def db1_def)
    with fold_insert_or_update_counts [OF f] show ?thesis by simp
  qed
qed

theorem blank_row_counted_nowhere_witness:
  "blank_row empty_cells \<and>
   insert_or_update (school, 0, 0) empty_cells = (school, 0, 0) \<and>
   (\<exists>db'. post_api_upload school (Some [alice, empty_cells])
            = (db', Inr \<lparr>recordsProcessed = 1, recordsFailed = 0, newColumnsAdded = []\<rparr>)) \<and>
   (1::nat) + 0 < length [alice, empty_cells]"
proof -
  have b: "blank_row empty_cells"
    by code_simp
  have r: "snd (post_api_upload school (Some [alice, empty_cells]))
             = Inr \<lparr>recordsProcessed = 1, recordsFailed = 0, newColumnsAdded = []\<rparr>"
    by code_simp
  then have u: "post_api_upload school (Some [alice, empty_cells])
      = (fst (post_api_upload school (Some [alice, empty_cells])),
         Inr \<lparr>recordsProcessed = 1, recordsFailed = 0, newColumnsAdded = []\<rparr>)"
    by (metis prod.collapse)
  from blank_row_counted_nowhere [of empty_cells school 0 0 "[alice, empty_cells]"
      "fst (post_api_upload school (Some [alice, empty_cells]))"
      "\<lparr>recordsProcessed = 1, recordsFailed = 0, newColumnsAdded = []\<rparr>"] b u
  show ?thesis by auto
qed

subsection \<open>Creating a work item\<close>

text \<open>
  C8, as the code has it. \<^verbatim>\<open>POST /api/work-status\<close> validates nothing itself: when
  \<^verbatim>\<open>task\<close> or \<^verbatim>\<open>deadline\<close> is missing (\<^verbatim>\<open>undefined\<close> or
  \<^verbatim>\<open>null\<close>) the insert is refused by the database, the handler answers with
  status 500 and the database error, and nothing is stored.
\<close>

theorem create_work_item_missing_field:
  "task body \<in> {Undefined, Null} \<or> deadline body \<in> {Undefined, Null} \<Longrightarrow>
   \<exists>e. post_api_work_status db body = (db, Inl (Status500 e))"
  by (auto simp: post_api_work_status_def insert_work_status_def
           split: option.splits sum.splits if_splits)

theorem create_work_item_missing_field_witness:
  "Null \<in> {Undefined, Null} \<and>
   (\<exists>e. post_api_work_status school
           \<lparr>task = Str ''Collect forms'', status = Str ''pending'', startDate = Undefined,
            deadline = Null\<rparr> = (school, Inl (Status500 e)))"
  using create_work_item_missing_field [of
      "\<lparr>task = Str ''Collect forms'', status = Str ''pending'', startDate = Undefined,
        deadline = Null\<rparr>" school]
  by simp

text \<open>
  The claim as stated fails in three ways: the answer to a missing \<^verbatim>\<open>task\<close> is
  a 500 with the database's error and not a 400; an empty \<^verbatim>\<open>task\<close> is a text
  like any other, and the item is stored; and an item created without a
  \<^verbatim>\<open>status\<close> is stored with \<^verbatim>\<open>NULL\<close> there, not with
  \<^verbatim>\<open>pending\<close>, because the statement names the column and passes
  \<^verbatim>\<open>NULL\<close> for it.
\<close>

theorem create_work_item_counterexample:
  "snd (post_api_work_status school
     \<lparr>task = Undefined, status = Str ''pending'', startDate = Undefined,
      deadline = Str ''2024-01-05''\<rparr>) = Inl (Status500 ER_BAD_NULL_ERROR) \<and>
   snd (post_api_work_status school
     \<lparr>task = Str [], status = Str ''pending'', startDate = Undefined,
      deadline = Str ''2024-01-05''\<rparr>) = Inr 1 \<and>
   snd (post_api_work_status school
     \<lparr>task = Str ''Collect forms'', status = Undefined, startDate = Undefined,
      deadline = Str ''2024-01-05''\<rparr>) = Inr 1 \<and>
   map wi_status (work_status (fst (post_api_work_status school
     \<lparr>task = Str ''Collect forms'', status = Undefined, startDate = Undefined,
      deadline = Str ''2024-01-05''\<rparr>))) = [None]"
  by code_simp

subsection \<open>Filters of the student search\<close>

lemma contains_ci_iff:
  "contains_ci v t \<longleftrightarrow> (\<exists>pre mid post. t = pre @ mid @ post \<and> ci_eq mid v)"
proof
  assume "contains_ci v t"
  then obtain k where "ci_eq (take (length v) (drop k t)) v"
    unfolding contains_ci_def list_ex_iff by blast
  moreover have "t = take k t @ take (length v) (drop k t) @ drop (length v) (drop k t)"
    by (simp only: append_take_drop_id)
  ultimately show "\<exists>pre mid post. t = pre @ mid @ post \<and> ci_eq mid v"
    by blast
next
  assume "\<exists>pre mid post. t = pre @ mid @ post \<and> ci_eq mid v"
  then obtain pre mid post where t: "t = pre @ mid @ post" and m: "ci_eq mid v"
    by blast
  from m have len: "length mid = length v"
    by (metis ci_eq_def length_map)
  have "take (length v) (drop (length pre) t) = mid"
    using t len by simp
  with m have "ci_eq (take (length v) (drop (length pre) t)) v"
    by simp
  moreover have "length pre < Suc (length t)"
    using t by simp
  ultimately show "contains_ci v t"
    unfolding contains_ci_def list_ex_iff by (metis atLeastLessThan_iff set_upt zero_le)
qed





lemma get_api_students_params:
  "get_api_students db filters =
     (case select_students db (like_params filters) of
        Inl e \<Rightarrow> Inl (Status500 e)
      | Inr rows \<Rightarrow> Inr (rows, length rows))"
  by (simp add: get_api_students_def like_params_def)

lemma column_refs_unresolved:
  "(k, v) \<in> set kvs \<Longrightarrow> column_ref db k = None \<Longrightarrow> column_refs db kvs = None"
  by (induction kvs) (auto split: option.splits)







text \<open>
  C7, as the code has it. A filter key is not checked against the registry. When a key
  with a non-empty value resolves to no column of the table, the query fails and the
  handler answers with status 500 and the database's unknown-column error; a key with an
  empty value adds no condition, whether it names a column or not.
\<close>

theorem find_unknown_key:
  "((key, val) \<in> set filters \<and> val \<noteq> [] \<and> column_ref db key = None \<longrightarrow>
      get_api_students db filters = Inl (Status500 ER_BAD_FIELD_ERROR)) \<and>
   get_api_students db filters = get_api_students db (filter (\<lambda>(k, v). v \<noteq> []) filters)"
proof (intro conjI impI)
  assume a: "(key, val) \<in> set filters \<and> val \<noteq> [] \<and> column_ref db key = None"
  then have "(key, ''%'' @ val @ ''%'') \<in> set (like_params filters)"
    by (force simp: like_params_def)
  with a have "column_refs db (like_params filters) = None"
    by (blast intro: column_refs_unresolved)
  then show "get_api_students db filters = Inl (Status500 ER_BAD_FIELD_ERROR)"
    by (simp add: get_api_students_params select_students_def)
next
  show "get_api_students db filters = get_api_students db (filter (\<lambda>(k, v). v \<noteq> []) filters)"
    by (simp add: get_api_students_def)
qed

theorem find_unknown_key_witness:
  "(''house'', ''x'') \<in> set [(''name'', ''a''), (''house'', ''x'')] \<and>
   column_ref enrolled ''house'' = None \<and>
   get_api_students enrolled [(''name'', ''a''), (''house'', ''x'')]
     = Inl (Status500 ER_BAD_FIELD_ERROR)"
proof -
  have c: "column_ref enrolled ''house'' = None"
    by code_simp
  with find_unknown_key [of "''house''" "''x''" "[(''name'', ''a''), (''house'', ''x'')]" enrolled]
  show ?thesis by simp
qed

text \<open>
  The claim as stated fails on a key that names no attribute: with an empty value the
  search succeeds and returns every record, and with a non-empty value the failure is a
  500, not the 400 of a validation error.
\<close>

theorem find_unknown_key_counterexample:
  "column_ref enrolled ''house'' = None \<and>
   ''house'' \<notin> set (get_api_columns enrolled) \<and>
   (case get_api_students enrolled [(''house'', [])] of
      Inl e \<Rightarrow> None
    | Inr (rows, n) \<Rightarrow> Some n) = Some 1 \<and>
   (case get_api_students enrolled [(''house'', ''x'')] of
      Inl e \<Rightarrow> Some e
    | Inr found \<Rightarrow> None) = Some (Status500 ER_BAD_FIELD_ERROR)"
  by code_simp

subsection \<open>Adding a column\<close>

lemma escapeId_no_dot: "CHR ''.'' \<notin> set s \<Longrightarrow> escapeId s = [s]"
  by (induction s) auto








subsection \<open>The tallies of an upload\<close>

lemma filled_param: "filled v \<Longrightarrow> \<exists>l. sql_param v = Some l"
  by (cases v) (auto simp: filled_def)

lemma property_distinct:
  "distinct (map fst r) \<Longrightarrow> (k, v) \<in> set r \<Longrightarrow> property r k = v"
  by (simp add: property_def)

lemma property_filled_mem:
  "filled (property r k) \<Longrightarrow> (k, property r k) \<in> set r"
  by (auto simp: property_def filled_def split: option.splits dest: map_of_SomeD)

lemma find_column_mem:
  "find_column cols k = Some c \<Longrightarrow> c \<in> set cols \<and> ci_eq (Field c) k"
  by (auto simp: find_column_def find_Some_iff)

lemma find_column_ci_distinct:
  "distinct (map (\<lambda>c. map lower (Field c)) cols) \<Longrightarrow> c \<in> set cols \<Longrightarrow> ci_eq (Field c) k \<Longrightarrow>
   find_column cols k = Some c"
proof (induction cols)
  case Nil
  then show ?case by simp
next
  case (Cons a cols)
  show ?case
  proof (cases "ci_eq (Field a) k")
    case True
    have "a = c"
    proof (rule ccontr)
      assume "a \<noteq> c"
      with Cons.prems have "c \<in> set cols" by simp
      then have "map lower (Field c) \<in> set (map (\<lambda>c. map lower (Field c)) cols)" by force
      moreover from True Cons.prems(3) have "map lower (Field a) = map lower (Field c)"
        by (simp add: ci_eq_def)
      ultimately show False using Cons.prems(1) by simp
    qed
    with True show ?thesis by (simp add: find_column_def)
  next
    case False
    with Cons.prems have "c \<in> set cols" by auto
    with Cons False show ?thesis by (simp add: find_column_def)
  qed
qed

lemma column_ref_exact:
  assumes "table_ok db" and "c \<in> set (student_columns db)"
  shows "column_ref db (Field c) = Some c"
proof -
  from assms have "CHR ''.'' \<notin> set (Field c)"
    by (auto simp: table_ok_def list_all_iff)
  then have "escapeId (Field c) = [Field c]"
    by (rule escapeId_no_dot)
  moreover have "find_column (student_columns db) (Field c) = Some c"
    using assms by (intro find_column_ci_distinct) (auto simp: table_ok_def ci_eq_def)
  ultimately show ?thesis by (simp add: column_ref_def)
qed

lemma distinct_Field:
  "table_ok db \<Longrightarrow> distinct (map Field (student_columns db))"
proof -
  assume "table_ok db"
  then have "distinct (map (map lower \<circ> Field) (student_columns db))"
    by (simp add: table_ok_def comp_def)
  then have d: "distinct (student_columns db)"
    and i: "inj_on (map lower \<circ> Field) (set (student_columns db))"
    by (simp_all add: distinct_map)
  from i have "inj_on Field (set (student_columns db))"
    by (rule inj_on_imageI2)
  with d show ?thesis by (simp add: distinct_map)
qed

lemma same_Field:
  "table_ok db \<Longrightarrow> c \<in> set (student_columns db) \<Longrightarrow> c' \<in> set (student_columns db) \<Longrightarrow>
   Field c = Field c' \<Longrightarrow> c = c'"
  using distinct_Field [of db] by (meson distinct_map inj_onD)

lemma cell_fits_column:
  assumes "table_ok db" and "cell_fits db [] (k, v)" and "filled v"
  shows "\<exists>c l. sql_param v = Some l \<and> c \<in> set (student_columns db) \<and> Field c = k \<and>
             column_ref db k = Some c \<and> store_value c l = Inr (SqlText (literal_text l)) \<and>
             (Unique c \<longrightarrow> k = ''student_id'')"
proof -
  from assms(3) obtain l where l: "sql_param v = Some l"
    by (auto dest: filled_param)
  with assms(2,3) obtain c where c: "c \<in> set (student_columns db)" "Field c = k"
      and t: "(case Type c of TVarchar n \<Rightarrow> length (literal_text l) \<le> n | _ \<Rightarrow> False)"
      and u: "Unique c \<longrightarrow> k = ''student_id''"
    by (auto simp: cell_fits_def list_ex_iff)
  from t have "store_value c l = Inr (SqlText (literal_text l))"
    by (cases l) (auto simp: store_value_def store_text_def split: coltype.splits)
  moreover from column_ref_exact [OF assms(1) c(1)] c(2) have "column_ref db k = Some c"
    by simp
  ultimately show ?thesis using c u l by blast
qed

lemma new_row_not_duplicate: "new_row db args \<noteq> Inl ER_DUP_ENTRY"
proof -
  have b: "build_row db cols given \<noteq> Inl ER_DUP_ENTRY" for cols given
    by (induction cols)
       (auto simp: default_value_def insert_value_def store_value_def store_text_def
             split: sum.splits option.splits coltype.splits literal.splits if_splits)
  show ?thesis
    using b by (auto simp: new_row_def split: option.splits)
qed

lemma build_row_ok:
  assumes "\<And>c. c \<in> set cols \<Longrightarrow>
             (case given (Field c) of None \<Rightarrow> default_value db c | Some v \<Rightarrow> insert_value db c v) \<noteq> Inl e"
  shows "build_row db cols given \<noteq> Inl e"
  using assms by (induction cols) (auto split: sum.splits)

lemma build_row_total:
  assumes "\<And>c. c \<in> set cols \<Longrightarrow>
             \<exists>x. (case given (Field c) of None \<Rightarrow> default_value db c | Some v \<Rightarrow> insert_value db c v) = Inr x"
  shows "\<exists>r. build_row db cols given = Inr r"
  using assms
proof (induction cols)
  case Nil
  then show ?case by simp
next
  case (Cons c cs)
  from Cons.prems [of c] obtain x where
    x: "(case given (Field c) of None \<Rightarrow> default_value db c | Some v \<Rightarrow> insert_value db c v) = Inr x"
    by auto
  from Cons.IH Cons.prems obtain r where "build_row db cs given = Inr r"
    by auto
  with x show ?case by simp
qed

lemma build_row_fails:
  assumes "c \<in> set cols"
    and "(case given (Field c) of None \<Rightarrow> default_value db c | Some v \<Rightarrow> insert_value db c v) = Inl e"
  shows "\<exists>e'. build_row db cols given = Inl e'"
  using assms by (induction cols) (auto split: sum.splits)

lemma column_refs_exact:
  assumes "\<forall>kv \<in> set kvs. \<exists>c. column_ref db (fst kv) = Some c \<and> Field c = fst kv"
  shows "\<exists>cvs. column_refs db kvs = Some cvs \<and> named_values cvs = kvs \<and>
               list_all2 (\<lambda>kv cv. column_ref db (fst kv) = Some (fst cv) \<and> snd cv = snd kv) kvs cvs"
  using assms
proof (induction kvs)
  case Nil
  then show ?case by (simp add: named_values_def)
next
  case (Cons kv kvs)
  obtain k v where kv: "kv = (k, v)" by (cases kv)
  from Cons.prems kv obtain c where c: "column_ref db k = Some c" "Field c = k"
    by auto
  from Cons.IH Cons.prems obtain cvs where
    cvs: "column_refs db kvs = Some cvs" "named_values cvs = kvs"
      "list_all2 (\<lambda>kv cv. column_ref db (fst kv) = Some (fst cv) \<and> snd cv = snd kv) kvs cvs"
    by auto
  from kv c cvs have "column_refs db (kv # kvs) = Some ((c, v) # cvs)"
    by simp
  moreover from kv c cvs have "named_values ((c, v) # cvs) = kv # kvs"
    by (simp add: named_values_def)
  moreover from kv c cvs
  have "list_all2 (\<lambda>kv cv. column_ref db (fst kv) = Some (fst cv) \<and> snd cv = snd kv)
          (kv # kvs) ((c, v) # cvs)"
    by simp
  ultimately show ?case by blast
qed

lemma list_all2_right:
  "list_all2 R xs ys \<Longrightarrow> y \<in> set ys \<Longrightarrow> \<exists>x \<in> set xs. R x y"
  by (metis in_set_conv_nth list_all2_conv_all_nth)

lemma column_ref_mem:
  "column_ref db k = Some c \<Longrightarrow> c \<in> set (student_columns db)"
  by (auto simp: column_ref_def split: option.splits dest: find_column_mem)

lemma insert_args_mem:
  "(k, p) \<in> set (insert_args r) \<longleftrightarrow> (\<exists>v. p = sql_param v \<and> filled v \<and> (k, v) \<in> set r)"
  by (force simp: insert_args_def validEntries_of_def)

lemma insert_args_keys: "map fst (insert_args r) = map fst (validEntries_of r)"
  by (simp add: insert_args_def comp_def case_prod_unfold)

lemma distinct_insert_args: "distinct (map fst r) \<Longrightarrow> distinct (map fst (insert_args r))"
  by (simp add: insert_args_keys validEntries_of_def distinct_map_filter)

lemma map_of_insert_args_None:
  assumes "distinct (map fst r)" and "\<not> filled (property r k)"
  shows "map_of (insert_args r) k = None"
proof (rule ccontr)
  assume "map_of (insert_args r) k \<noteq> None"
  then obtain p where "map_of (insert_args r) k = Some p" by auto
  then have "(k, p) \<in> set (insert_args r)" by (rule map_of_SomeD)
  then obtain v where "filled v" "(k, v) \<in> set r"
    unfolding insert_args_mem by blast
  with assms(1) have "filled (property r k)"
    by (simp add: property_distinct)
  with assms(2) show False by simp
qed

lemma map_of_insert_args_Some:
  assumes "distinct (map fst r)" and "filled (property r k)"
  shows "map_of (insert_args r) k = Some (sql_param (property r k))"
proof -
  from property_filled_mem [OF assms(2)] assms(2)
  have "(k, sql_param (property r k)) \<in> set (insert_args r)"
    unfolding insert_args_mem by blast
  with distinct_insert_args [OF assms(1)] show ?thesis
    by simp
qed

lemma new_row_build:
  assumes ok: "table_ok db" and d: "distinct (map fst r)" and f: "list_all (cell_fits db []) r"
  shows "new_row db (insert_args r) = build_row db (student_columns db) (map_of (insert_args r))"
proof -
  have ref: "\<forall>kv \<in> set (insert_args r). \<exists>c. column_ref db (fst kv) = Some c \<and> Field c = fst kv"
  proof
    fix kv
    assume "kv \<in> set (insert_args r)"
    then have "(fst kv, snd kv) \<in> set (insert_args r)"
      by simp
    then obtain v where v: "filled v" "(fst kv, v) \<in> set r"
      unfolding insert_args_mem by blast
    with f have "cell_fits db [] (fst kv, v)" by (auto simp: list_all_iff)
    from cell_fits_column [OF ok this v(1)]
    show "\<exists>c. column_ref db (fst kv) = Some c \<and> Field c = fst kv" by blast
  qed
  from column_refs_exact [OF ref] obtain cvs where
    cvs: "column_refs db (insert_args r) = Some cvs" "named_values cvs = insert_args r"
    by blast
  with distinct_insert_args [OF d] show ?thesis
    by (simp add: new_row_def)
qed

lemma insert_value_fits:
  assumes ok: "table_ok db" and d: "distinct (map fst r)" and f: "list_all (cell_fits db []) r"
    and col: "col \<in> set (student_columns db)" and fl: "filled (property r (Field col))"
  shows "\<exists>l. sql_param (property r (Field col)) = Some l \<and>
             insert_value db col (Some l) = Inr (SqlText (literal_text l))"
proof -
  from property_filled_mem [OF fl] f
  have "cell_fits db [] (Field col, property r (Field col))"
    by (auto simp: list_all_iff)
  from cell_fits_column [OF ok this fl] obtain c' l where
    c': "sql_param (property r (Field col)) = Some l" "c' \<in> set (student_columns db)"
      "Field c' = Field col" "store_value c' l = Inr (SqlText (literal_text l))"
    by blast
  from same_Field [OF ok c'(2) col c'(3)] c'
  have "store_value col l = Inr (SqlText (literal_text l))"
    by simp
  with c'(1) show ?thesis by (simp add: insert_value_def)
qed

lemma new_row_valid:
  assumes ok: "table_ok db" and d: "distinct (map fst r)" and f: "list_all (cell_fits db []) r"
    and c: "complete_row db r"
  shows "\<exists>x. new_row db (insert_args r) = Inr x"
proof -
  have col: "\<exists>x. (case map_of (insert_args r) (Field col) of
                    None \<Rightarrow> default_value db col
                  | Some v \<Rightarrow> insert_value db col v) = Inr x"
    if col: "col \<in> set (student_columns db)" for col
  proof (cases "filled (property r (Field col))")
    case False
    with c col have "Auto col \<or> Nullable col"
      by (auto simp: complete_row_def list_all_iff)
    then have "\<exists>x. default_value db col = Inr x"
      by (auto simp: default_value_def split: coltype.splits)
    with map_of_insert_args_None [OF d False] show ?thesis by simp
  next
    case True
    from insert_value_fits [OF ok d f col True] map_of_insert_args_Some [OF d True]
    show ?thesis by auto
  qed
  from build_row_total [where cols = "student_columns db" and given = "map_of (insert_args r)"
      and db = db, OF col]
  show ?thesis
    unfolding new_row_build [OF ok d f] by blast
qed

lemma new_row_without_student_id:
  assumes ok: "table_ok db" and d: "distinct (map fst r)" and f: "list_all (cell_fits db []) r"
    and n: "\<not> filled (property r ''student_id'')"
  shows "\<exists>e. new_row db (insert_args r) = Inl e"
proof -
  from ok obtain c0 where c0: "c0 \<in> set (student_columns db)" "Field c0 = ''student_id''"
      "\<not> Auto c0" "\<not> Nullable c0"
    by (auto simp: table_ok_def list_ex_iff)
  from map_of_insert_args_None [OF d n] c0
  have "(case map_of (insert_args r) (Field c0) of
           None \<Rightarrow> default_value db c0
         | Some v \<Rightarrow> insert_value db c0 v) = Inl ER_NO_DEFAULT_FOR_FIELD"
    by (simp add: default_value_def)
  from build_row_fails [where c = c0 and given = "map_of (insert_args r)" and db = db, OF c0(1) this]
  show ?thesis
    unfolding new_row_build [OF ok d f] by blast
qed

lemma column_refs_rel:
  "column_refs db kvs = Some cvs \<Longrightarrow>
   list_all2 (\<lambda>kv cv. column_ref db (fst kv) = Some (fst cv) \<and> snd cv = snd kv) kvs cvs"
proof (induction kvs arbitrary: cvs)
  case Nil
  then show ?case by simp
next
  case (Cons kv kvs)
  obtain k v where kv: "kv = (k, v)" by (cases kv)
  from Cons.prems kv obtain c rest where c: "column_ref db k = Some c"
      and rest: "column_refs db kvs = Some rest" and cvs: "cvs = (c, v) # rest"
    by (auto split: option.splits)
  from Cons.IH [OF rest] kv c cvs show ?case by simp
qed

lemma build_row_values:
  assumes "build_row db cols given = Inr x" and "distinct (map Field cols)"
  shows "(\<forall>c \<in> set cols.
            (case given (Field c) of None \<Rightarrow> default_value db c | Some v \<Rightarrow> insert_value db c v)
              = Inr (x (Field c))) \<and>
         (\<forall>f. f \<notin> Field ` set cols \<longrightarrow> x f = SqlNull)"
  using assms
proof (induction cols arbitrary: x)
  case Nil
  then show ?case by auto
next
  case (Cons c cs)
  from Cons.prems(1) obtain y r where
    y: "(case given (Field c) of None \<Rightarrow> default_value db c | Some v \<Rightarrow> insert_value db c v) = Inr y"
    and r: "build_row db cs given = Inr r" and x: "x = r(Field c := y)"
    by (auto split: sum.splits)
  from Cons.prems(2) have d: "distinct (map Field cs)"
    and n0: "Field c \<notin> Field ` set cs"
    by simp_all
  from n0 have n: "\<forall>c' \<in> set cs. Field c' \<noteq> Field c"
    by (metis imageI)
  from Cons.IH [OF r d] have
    i1: "\<forall>c' \<in> set cs.
            (case given (Field c') of None \<Rightarrow> default_value db c' | Some v \<Rightarrow> insert_value db c' v)
              = Inr (r (Field c'))"
    and i2: "\<forall>f. f \<notin> Field ` set cs \<longrightarrow> r f = SqlNull"
    by simp_all
  have "(case given (Field c') of None \<Rightarrow> default_value db c' | Some v \<Rightarrow> insert_value db c' v)
              = Inr (x (Field c'))" if "c' \<in> set (c # cs)" for c'
  proof (cases "c' = c")
    case True
    from y x show ?thesis unfolding True by simp
  next
    case False
    with that have "c' \<in> set cs" by simp
    with i1 n x show ?thesis by simp
  qed
  moreover have "x f = SqlNull" if "f \<notin> Field ` set (c # cs)" for f
    using that i2 x by auto
  ultimately show ?case by blast
qed

lemma assign_values:
  "assign cvs r = Inr r' \<Longrightarrow>
   r' f = r f \<or> (\<exists>cv \<in> set cvs. Field (fst cv) = f \<and> update_value (fst cv) (snd cv) = Inr (r' f))"
proof (induction cvs arbitrary: r)
  case Nil
  then show ?case by simp
next
  case (Cons cv cvs)
  obtain c v where cv: "cv = (c, v)" by (cases cv)
  from Cons.prems cv obtain y where y: "update_value c v = Inr y"
      and a: "assign cvs (r(Field c := y)) = Inr r'"
    by (auto split: sum.splits)
  from Cons.IH [OF a] consider "r' f = (r(Field c := y)) f"
    | "\<exists>cv \<in> set cvs. Field (fst cv) = f \<and> update_value (fst cv) (snd cv) = Inr (r' f)"
    by blast
  then show ?case
  proof cases
    case 1
    show ?thesis
    proof (cases "f = Field c")
      case True
      with 1 y cv show ?thesis by auto
    next
      case False
      with 1 show ?thesis by simp
    qed
  next
    case 2
    then show ?thesis by auto
  qed
qed

lemma update_rows_frame:
  "update_rows cols cvs m seen rs = Inr out \<Longrightarrow>
   length out = length seen + length rs \<and>
   (\<forall>i < length seen. out ! i = seen ! i) \<and>
   (\<forall>j < length rs. \<forall>f.
      (out ! (length seen + j)) f = (rs ! j) f \<or>
      (\<exists>cv \<in> set cvs. Field (fst cv) = f \<and>
         update_value (fst cv) (snd cv) = Inr ((out ! (length seen + j)) f)))"
proof (induction rs arbitrary: seen)
  case Nil
  then show ?case by simp
next
  case (Cons r rs)
  obtain r' where step: "update_rows cols cvs m (seen @ [r']) rs = Inr out"
    and r': "r' = r \<or> assign cvs r = Inr r'"
    using Cons.prems by (auto split: if_splits sum.splits)
  from Cons.IH [OF step] have len: "length out = length seen + length (r # rs)"
    and old: "\<forall>i < length (seen @ [r']). out ! i = (seen @ [r']) ! i"
    and new: "\<forall>j < length rs. \<forall>f.
      (out ! (length (seen @ [r']) + j)) f = (rs ! j) f \<or>
      (\<exists>cv \<in> set cvs. Field (fst cv) = f \<and>
         update_value (fst cv) (snd cv) = Inr ((out ! (length (seen @ [r']) + j)) f))"
    by simp_all
  from old have o1: "\<forall>i < length seen. out ! i = seen ! i"
    by (metis length_append_singleton less_Suc_eq nth_append)
  from old have here: "out ! length seen = r'"
    by (metis length_append_singleton lessI nth_append_length)
  have "(out ! (length seen + j)) f = ((r # rs) ! j) f \<or>
      (\<exists>cv \<in> set cvs. Field (fst cv) = f \<and>
         update_value (fst cv) (snd cv) = Inr ((out ! (length seen + j)) f))"
    if j: "j < length (r # rs)" for j f
  proof (cases j)
    case 0
    with here r' assign_values [of cvs r r' f] show ?thesis by auto
  next
    case (Suc k)
    with j new have "(out ! (length (seen @ [r']) + k)) f = (rs ! k) f \<or>
      (\<exists>cv \<in> set cvs. Field (fst cv) = f \<and>
         update_value (fst cv) (snd cv) = Inr ((out ! (length (seen @ [r']) + k)) f))"
      by simp
    with Suc show ?thesis by simp
  qed
  with len o1 show ?case by blast
qed

lemma assign_frame:
  "assign cvs r = Inr r' \<Longrightarrow> f \<notin> Field ` fst ` set cvs \<Longrightarrow> r' f = r f"
proof (induction cvs arbitrary: r)
  case Nil
  then show ?case by simp
next
  case (Cons cv cvs)
  obtain c v where cv: "cv = (c, v)" by (cases cv)
  from Cons.prems(1) cv obtain x where x: "update_value c v = Inr x"
      and a: "assign cvs (r(Field c := x)) = Inr r'"
    by (auto split: sum.splits)
  from Cons.prems(2) cv have "f \<noteq> Field c" "f \<notin> Field ` fst ` set cvs"
    by auto
  with Cons.IH [OF a] show ?case by simp
qed

lemma assign_total:
  "\<forall>cv \<in> set cvs. \<exists>x. update_value (fst cv) (snd cv) = Inr x \<Longrightarrow> \<exists>r'. assign cvs r = Inr r'"
proof (induction cvs arbitrary: r)
  case Nil
  then show ?case by simp
next
  case (Cons cv cvs)
  obtain c v where cv: "cv = (c, v)" by (cases cv)
  from Cons.prems cv obtain x where x: "update_value c v = Inr x" by auto
  from Cons.prems have "\<forall>cv \<in> set cvs. \<exists>x. update_value (fst cv) (snd cv) = Inr x"
    by simp
  from Cons.IH [OF this, of "r(Field c := x)"] obtain r' where
    "assign cvs (r(Field c := x)) = Inr r'" by blast
  with cv x show ?case by simp
qed

lemma update_rows_total:
  assumes inj: "inj_on Field (set cols)"
    and sets: "\<forall>cv \<in> set cvs. fst cv \<in> set cols \<and> \<not> Unique (fst cv) \<and>
                 (\<exists>x. update_value (fst cv) (snd cv) = Inr x)"
    and hits: "\<forall>r \<in> set rs. \<exists>hit. m r = Inr hit"
  shows "\<exists>out. update_rows cols cvs m seen rs = Inr out"
  using hits
proof (induction rs arbitrary: seen)
  case Nil
  then show ?case by simp
next
  case (Cons r rs)
  from Cons.prems obtain hit where hit: "m r = Inr hit"
    by auto
  from Cons.prems have rest: "\<forall>r \<in> set rs. \<exists>hit. m r = Inr hit"
    by simp
  show ?case
  proof (cases hit)
    case False
    with hit Cons.IH [OF rest, of "seen @ [r]"] show ?thesis by simp
  next
    case True
    from assign_total [of cvs r] sets obtain r' where r': "assign cvs r = Inr r'"
      by blast
    have same: "r' (Field c) = r (Field c)" if c: "c \<in> set cols" "Unique c" for c
    proof -
      have "Field c \<notin> Field ` fst ` set cvs"
      proof
        assume "Field c \<in> Field ` fst ` set cvs"
        then obtain cv where cv: "cv \<in> set cvs" "Field (fst cv) = Field c" by auto
        with sets have "fst cv \<in> set cols" "\<not> Unique (fst cv)" by auto
        with inj cv(2) c show False by (auto dest: inj_onD)
      qed
      with r' show ?thesis by (rule assign_frame)
    qed
    then have "\<not> key_conflict cols (seen @ rs) r r'"
      by (auto simp: key_conflict_def list_ex_iff)
    with True hit r' Cons.IH [OF rest, of "seen @ [r']"] show ?thesis by simp
  qed
qed

lemma update_student_valid:
  assumes ok: "table_ok db" and d: "distinct (map fst r)" and f: "list_all (cell_fits db []) r"
    and cmp: "\<forall>st \<in> set (students db). comparable (st ''student_id'') sid"
  shows "\<exists>rows. update_student db (update_args r) sid = Inr (db\<lparr>students := rows\<rparr>) \<and>
                map (\<lambda>st. st ''student_id'') rows = map (\<lambda>st. st ''student_id'') (students db)"
proof -
  have fits: "\<exists>c l. column_ref db (fst kv) = Some c \<and> Field c = fst kv \<and>
                fst kv \<noteq> ''student_id'' \<and> snd kv = Some l \<and>
                store_value c l = Inr (SqlText (literal_text l)) \<and> \<not> Unique c"
    if "kv \<in> set (update_args r)" for kv
  proof -
    from that have k: "fst kv \<noteq> ''student_id''" "filled (property r (fst kv))"
        "snd kv = sql_param (property r (fst kv))"
      by (auto simp: update_args_def updateColumns_of_def)
    from property_filled_mem [OF k(2)] f
    have "cell_fits db [] (fst kv, property r (fst kv))"
      by (auto simp: list_all_iff)
    from cell_fits_column [OF ok this k(2)] k(1,3) show ?thesis by auto
  qed
  then have "\<forall>kv \<in> set (update_args r). \<exists>c. column_ref db (fst kv) = Some c \<and> Field c = fst kv"
    by blast
  from column_refs_exact [OF this] obtain cvs where
    cvs: "column_refs db (update_args r) = Some cvs"
    and rel: "list_all2 (\<lambda>kv cv. column_ref db (fst kv) = Some (fst cv) \<and> snd cv = snd kv)
                (update_args r) cvs"
    by blast
  have each: "fst cv \<in> set (student_columns db) \<and> \<not> Unique (fst cv) \<and>
                 (\<exists>x. update_value (fst cv) (snd cv) = Inr x) \<and> Field (fst cv) \<noteq> ''student_id''"
    if "cv \<in> set cvs" for cv
  proof -
    from list_all2_right [OF rel that] obtain kv where
      kv: "kv \<in> set (update_args r)" "column_ref db (fst kv) = Some (fst cv)" "snd cv = snd kv"
      by blast
    from fits [OF kv(1)] kv(2,3) obtain l where
      "snd cv = Some l" "store_value (fst cv) l = Inr (SqlText (literal_text l))"
      "\<not> Unique (fst cv)" "Field (fst cv) \<noteq> ''student_id''"
      by auto
    moreover from kv(2) have "fst cv \<in> set (student_columns db)" by (rule column_ref_mem)
    ultimately show ?thesis
      by (simp add: update_value_def)
  qed
  then have sets: "\<forall>cv \<in> set cvs. fst cv \<in> set (student_columns db) \<and> \<not> Unique (fst cv) \<and>
                 (\<exists>x. update_value (fst cv) (snd cv) = Inr x)"
    and others: "\<forall>cv \<in> set cvs. Field (fst cv) \<noteq> ''student_id''"
    by blast+
  from ok obtain c0 where c0: "c0 \<in> set (student_columns db)" "Field c0 = ''student_id''"
    by (auto simp: table_ok_def list_ex_iff)
  from column_ref_exact [OF ok c0(1)] c0(2)
  have k: "find_column (student_columns db) ''student_id'' = Some c0"
    by (auto simp: column_ref_def split: option.splits dest!: escapeId_no_dot [THEN sym])
  have inj: "inj_on Field (set (student_columns db))"
    using distinct_Field [OF ok] by (simp add: distinct_map)
  have hits: "\<forall>st \<in> set (students db). \<exists>hit. matches (st (Field c0)) sid = Inr hit"
  proof
    fix st
    assume "st \<in> set (students db)"
    with cmp have "comparable (st ''student_id'') sid"
      by simp
    then show "\<exists>hit. matches (st (Field c0)) sid = Inr hit"
      unfolding c0(2) comparable_def by (cases "matches (st ''student_id'') sid") simp_all
  qed
  from update_rows_total [OF inj sets hits] obtain out where
    out: "update_rows (student_columns db) cvs (\<lambda>r. matches (r (Field c0)) sid) [] (students db)
            = Inr out"
    by blast
  from update_rows_frame [OF out] have len: "length out = length (students db)"
    and fr: "\<forall>j < length (students db). \<forall>f.
      (out ! j) f = (students db ! j) f \<or>
      (\<exists>cv \<in> set cvs. Field (fst cv) = f \<and> update_value (fst cv) (snd cv) = Inr ((out ! j) f))"
    by simp_all
  from fr others
  have "\<forall>j < length (students db). (out ! j) ''student_id'' = (students db ! j) ''student_id''"
    by blast
  with len have "map (\<lambda>st. st ''student_id'') out = map (\<lambda>st. st ''student_id'') (students db)"
    by (simp add: list_eq_iff_nth_eq)
  with out cvs k show ?thesis by (auto simp: update_student_def)
qed

lemma valid_has_student_id:
  assumes "table_ok db" and "valid_row db hs r"
  shows "filled (property r ''student_id'')"
proof -
  from assms(1) obtain c0 where "c0 \<in> set (student_columns db)" "Field c0 = ''student_id''"
      "\<not> Auto c0" "\<not> Nullable c0"
    by (auto simp: table_ok_def list_ex_iff)
  with assms(2) show ?thesis
    by (auto simp: valid_row_def complete_row_def list_all_iff)
qed

lemma insert_or_update_eq:
  "insert_or_update (db, n, e) r =
     (if length (validEntries_of r) = 0 then (db, n, e)
      else
        (case insert_student db (insert_args r) of
           Inr db' \<Rightarrow> (db', n + 1, e)
         | Inl err \<Rightarrow>
             if err = ER_DUP_ENTRY then
               (if length (updateColumns_of r) > 0 then
                  (case update_student db (update_args r) (student_id_of r) of
                     Inr db' \<Rightarrow> (db', n + 1, e)
                   | Inl updateErr \<Rightarrow> (db, n, e + 1))
                else (db, n, e))
             else (db, n, e + 1)))"
  unfolding insert_or_update_def validEntries_of_def insert_args_def update_args_def
    updateColumns_of_def student_id_of_def Let_def prod.case
  by (rule refl)

lemma validEntries_of_empty: "validEntries_of r = [] \<longleftrightarrow> blank_row r"
  by (auto simp: validEntries_of_def blank_row_def filter_empty_conv list_all_iff)

lemma insert_or_update_valid:
  assumes ok: "table_ok db" and v: "valid_row db [] r"
    and cmp: "\<forall>st \<in> set (students db). comparable (st ''student_id'') (student_id_of r)"
  shows "\<exists>db' l. insert_or_update (db, n, e) r = (db', n + 1, e) \<and>
               student_columns db' = student_columns db \<and> student_id_of r = Some l \<and>
               set (map (\<lambda>st. st ''student_id'') (students db'))
                 \<subseteq> insert (SqlText (literal_text l))
                     (set (map (\<lambda>st. st ''student_id'') (students db)))"
proof -
  from v have d: "distinct (map fst r)" and f: "list_all (cell_fits db []) r"
    and c: "complete_row db r" and x: "list_ex (\<lambda>(k, v). k \<noteq> ''student_id'' \<and> filled v) r"
    by (simp_all add: valid_row_def)
  from x obtain k v where kv: "(k, v) \<in> set r" "k \<noteq> ''student_id''" "filled v"
    by (auto simp: list_ex_iff)
  then have ne: "validEntries_of r \<noteq> []"
    by (auto simp: validEntries_of_def filter_empty_conv)
  from kv property_distinct [OF d kv(1)] have "k \<in> set (updateColumns_of r)"
    by (force simp: updateColumns_of_def)
  then have une: "updateColumns_of r \<noteq> []"
    by auto
  from ok obtain c0 where c0: "c0 \<in> set (student_columns db)" "Field c0 = ''student_id''"
    by (auto simp: table_ok_def list_ex_iff)
  have fl: "filled (property r ''student_id'')"
    using ok v by (rule valid_has_student_id)
  from insert_value_fits [OF ok d f c0(1)] fl c0(2) obtain l where
    l: "sql_param (property r ''student_id'') = Some l"
      "insert_value db c0 (Some l) = Inr (SqlText (literal_text l))"
    by auto
  from l(1) have sid: "student_id_of r = Some l"
    by (simp add: student_id_of_def)
  from new_row_valid [OF ok d f c] obtain row where row: "new_row db (insert_args r) = Inr row"
    by blast
  have rid: "row ''student_id'' = SqlText (literal_text l)"
  proof -
    from row have b: "build_row db (student_columns db) (map_of (insert_args r)) = Inr row"
      unfolding new_row_build [OF ok d f] .
    from build_row_values [OF b distinct_Field [OF ok]] c0(1)
    have "(case map_of (insert_args r) (Field c0) of
             None \<Rightarrow> default_value db c0
           | Some v \<Rightarrow> insert_value db c0 v) = Inr (row (Field c0))"
      by blast
    with map_of_insert_args_Some [OF d fl] c0(2) l show ?thesis by simp
  qed
  show ?thesis
  proof (cases "duplicate_key (student_columns db) (students db) row")
    case False
    with row ne have "insert_or_update (db, n, e) r
        = (db\<lparr>students := students db @ [row],
               students_auto_increment := next_auto_increment db row\<rparr>, n + 1, e)"
      by (simp add: insert_or_update_eq insert_student_def)
    with rid sid show ?thesis by auto
  next
    case True
    with row have "insert_student db (insert_args r) = Inl ER_DUP_ENTRY"
      by (simp add: insert_student_def)
    moreover from update_student_valid [OF ok d f cmp] obtain rows where
      "update_student db (update_args r) (student_id_of r) = Inr (db\<lparr>students := rows\<rparr>)"
      and ids: "map (\<lambda>st. st ''student_id'') rows = map (\<lambda>st. st ''student_id'') (students db)"
      by blast
    ultimately have st: "insert_or_update (db, n, e) r = (db\<lparr>students := rows\<rparr>, n + 1, e)"
      using ne une by (simp add: insert_or_update_eq)
    have cols: "student_columns (db\<lparr>students := rows\<rparr>) = student_columns db"
      by simp
    from ids
    have "set (map (\<lambda>st. st ''student_id'') (students (db\<lparr>students := rows\<rparr>)))
            \<subseteq> insert (SqlText (literal_text l))
                (set (map (\<lambda>st. st ''student_id'') (students db)))"
      by (simp add: subset_insertI del: set_map)
    with st cols sid show ?thesis by blast
  qed
qed

lemma insert_or_update_without_student_id:
  assumes ok: "table_ok db" and b: "row_without_student_id db [] r"
  shows "insert_or_update (db, n, e) r = (db, n, e + 1)"
proof -
  from b have d: "distinct (map fst r)" and f: "list_all (cell_fits db []) r"
    and nb: "\<not> blank_row r" and ns: "\<not> filled (property r ''student_id'')"
    by (simp_all add: row_without_student_id_def)
  from new_row_without_student_id [OF ok d f ns] obtain err where
    err: "new_row db (insert_args r) = Inl err"
    by blast
  with new_row_not_duplicate [of db "insert_args r"] have "err \<noteq> ER_DUP_ENTRY"
    by auto
  with err nb show ?thesis
    by (simp add: insert_or_update_eq insert_student_def validEntries_of_empty)
qed

lemma same_columns_cell_fits:
  "student_columns db' = student_columns db \<Longrightarrow> cell_fits db' hs = cell_fits db hs"
  by (rule ext) (simp only: cell_fits_def)

lemma same_columns_complete_row:
  "student_columns db' = student_columns db \<Longrightarrow> complete_row db' = complete_row db"
  by (rule ext) (simp only: complete_row_def)

lemma same_columns_table_ok:
  "student_columns db' = student_columns db \<Longrightarrow> table_ok db' = table_ok db"
  by (simp only: table_ok_def)

lemma same_columns_valid_row:
  assumes "student_columns db' = student_columns db"
  shows "valid_row db' hs = valid_row db hs"
  by (rule ext)
     (simp only: valid_row_def same_columns_cell_fits [OF assms]
        same_columns_complete_row [OF assms])

lemma same_columns_without:
  assumes "student_columns db' = student_columns db"
  shows "row_without_student_id db' hs = row_without_student_id db hs"
  by (rule ext) (simp only: row_without_student_id_def same_columns_cell_fits [OF assms])

lemma ids_comparable_iff:
  "ids_comparable db rows \<longleftrightarrow>
     (\<forall>r \<in> set rows.
        (\<forall>x \<in> set (map (\<lambda>st. st ''student_id'') (students db)). comparable x (student_id_of r)) \<and>
        (\<forall>r' \<in> set rows. \<forall>l. student_id_of r' = Some l \<longrightarrow>
           comparable (SqlText (literal_text l)) (student_id_of r)))"
  by (auto simp: ids_comparable_def list_all_iff split: option.splits)

lemma text_ids_comparable:
  assumes "\<forall>st \<in> set (students db). \<forall>k. st ''student_id'' \<noteq> SqlInt k"
    and "\<forall>r \<in> set rows. \<forall>k. student_id_of r \<noteq> Some (Number k)"
  shows "ids_comparable db rows"
proof -
  have c: "comparable x p" if "\<forall>k. x \<noteq> SqlInt k" "\<forall>k. p \<noteq> Some (Number k)" for x p
  proof (cases p)
    case None
    then show ?thesis by (simp add: comparable_def)
  next
    case (Some l)
    with that obtain s where "p = Some (Text s)"
      by (cases l) auto
    with that(1) show ?thesis
      by (cases x) (simp_all add: comparable_def)
  qed
  from assms show ?thesis
    unfolding ids_comparable_iff by (auto intro: c)
qed

lemma ids_comparable_step:
  assumes "ids_comparable db sheet" and "r \<in> set sheet" and "student_id_of r = Some l"
    and "set (map (\<lambda>st. st ''student_id'') (students db'))
           \<subseteq> insert (SqlText (literal_text l))
               (set (map (\<lambda>st. st ''student_id'') (students db)))"
  shows "ids_comparable db' sheet"
  using assms unfolding ids_comparable_iff by blast

lemma ids_comparable_same:
  assumes "map (\<lambda>st. st ''student_id'') (students db')
             = map (\<lambda>st. st ''student_id'') (students db)"
  shows "ids_comparable db' rows = ids_comparable db rows"
  unfolding ids_comparable_iff assms by (rule refl)

lemma fold_insert_or_update_tallies:
  assumes "table_ok db"
    and "\<forall>r \<in> set rows. valid_row db [] r \<or> row_without_student_id db [] r"
    and "set rows \<subseteq> set sheet" and "ids_comparable db sheet"
  shows "\<exists>db'. fold (\<lambda>row state. insert_or_update state row) rows (db, n, e)
                 = (db', n + length (filter (valid_row db []) rows),
                         e + length (filter (row_without_student_id db []) rows)) \<and>
               student_columns db' = student_columns db \<and> ids_comparable db' sheet"
  using assms
proof (induction rows arbitrary: db n e)
  case Nil
  then show ?case by simp
next
  case (Cons r rows)
  from Cons.prems(3) have r: "r \<in> set sheet" and sub: "set rows \<subseteq> set sheet"
    by simp_all
  show ?case
  proof (cases "valid_row db [] r")
    case True
    from Cons.prems(4) r
    have cmp: "\<forall>st \<in> set (students db). comparable (st ''student_id'') (student_id_of r)"
      unfolding ids_comparable_iff by auto
    from insert_or_update_valid [OF Cons.prems(1) True cmp, of n e] obtain db1 l where
      db1: "insert_or_update (db, n, e) r = (db1, n + 1, e)"
        "student_columns db1 = student_columns db"
      and l: "student_id_of r = Some l"
      and ids: "set (map (\<lambda>st. st ''student_id'') (students db1))
                  \<subseteq> insert (SqlText (literal_text l))
                      (set (map (\<lambda>st. st ''student_id'') (students db)))"
      by blast
    have cmp1: "ids_comparable db1 sheet"
      using Cons.prems(4) r l ids by (rule ids_comparable_step)
    from valid_has_student_id [OF Cons.prems(1) True]
    have nb: "\<not> row_without_student_id db [] r"
      by (simp add: row_without_student_id_def)
    note sc = same_columns_table_ok [OF db1(2)] same_columns_valid_row [OF db1(2), of "[]"]
      same_columns_without [OF db1(2), of "[]"]
    from Cons.prems have ok1: "table_ok db1"
      and all1: "\<forall>r \<in> set rows. valid_row db1 [] r \<or> row_without_student_id db1 [] r"
      by (simp_all add: sc)
    from Cons.IH [OF ok1 all1 sub cmp1, of "n + 1" e] db1 True nb show ?thesis
      by (simp add: sc)
  next
    case False
    with Cons.prems(2) have b: "row_without_student_id db [] r" by simp
    from insert_or_update_without_student_id [OF Cons.prems(1) b, of n e]
    have st: "insert_or_update (db, n, e) r = (db, n, e + 1)" .
    from Cons.prems have all: "\<forall>r \<in> set rows. valid_row db [] r \<or> row_without_student_id db [] r"
      by simp
    from Cons.IH [OF Cons.prems(1) all sub Cons.prems(4), of n "e + 1"] st False b show ?thesis
      by auto
  qed
qed

lemma find_column_None:
  "find_column cols k = None \<longleftrightarrow> (\<forall>c \<in> set cols. \<not> ci_eq (Field c) k)"
  by (auto simp: find_column_def find_None_iff)

lemma student_columns_insert_ignore [simp]:
  "student_columns (insert_ignore_table_columns db h) = student_columns db"
  by (simp add: insert_ignore_table_columns_def insert_table_columns_def split: sum.splits)

lemma schema_name_insert_ignore [simp]:
  "schema_name (insert_ignore_table_columns db h) = schema_name db"
  by (simp add: insert_ignore_table_columns_def insert_table_columns_def split: sum.splits)

lemma students_insert_ignore [simp]:
  "students (insert_ignore_table_columns db h) = students db"
  by (simp add: insert_ignore_table_columns_def insert_table_columns_def split: sum.splits)

lemma add_new_column_fresh:
  assumes "legal_name h" and "CHR ''.'' \<notin> set h"
    and nolike: "\<forall>c \<in> set (student_columns db). \<not> like h (Field c)"
    and fresh: "\<forall>c \<in> set (student_columns db). \<not> ci_eq (Field c) h"
  shows "student_columns (add_new_column db h) = student_columns db @ [dynamic_column h] \<and>
         students (add_new_column db h) = map (\<lambda>r. r(h := SqlNull)) (students db)"
proof -
  define db1 where "db1 = insert_ignore_table_columns db h"
  have cols: "student_columns db1 = student_columns db" and sts: "students db1 = students db"
    by (simp_all add: db1_def)
  from nolike have none: "show_columns_like db1 h = []"
    by (simp add: show_columns_like_def cols filter_empty_conv)
  from fresh have "find_column (student_columns db1) h = None"
    by (simp add: find_column_None cols)
  with assms(1,2) have "alter_add_column db1 h =
      Inr (db1\<lparr>student_columns := student_columns db1 @ [dynamic_column h],
               students := map (\<lambda>r. r(h := SqlNull)) (students db1)\<rparr>)"
    by (simp add: alter_add_column_def escapeId_no_dot)
  with none show ?thesis
    by (simp add: add_new_column_def db1_def [symmetric] cols sts)
qed

lemma Field_dynamic_column [simp]: "Field (dynamic_column h) = h"
  by (simp add: dynamic_column_def)

lemma fold_add_new_column:
  "headers_ok db hs \<Longrightarrow> ''student_id'' \<in> set (map Field (student_columns db)) \<Longrightarrow>
   student_columns (fold (\<lambda>col d. add_new_column d col) hs db)
     = student_columns db @ map dynamic_column hs \<and>
   map (\<lambda>st. st ''student_id'') (students (fold (\<lambda>col d. add_new_column d col) hs db))
     = map (\<lambda>st. st ''student_id'') (students db)"
proof (induction hs arbitrary: db)
  case Nil
  then show ?case by simp
next
  case (Cons h hs)
  from Cons.prems(1) have h: "legal_name h" "CHR ''.'' \<notin> set h"
    and no: "\<not> list_ex (\<lambda>n. ci_eq n h \<or> like h n) (map Field (student_columns db))"
    and rest: "addable (map Field (student_columns db) @ [h]) hs"
    by (simp_all add: headers_ok_def)
  from no have nolike: "\<forall>c \<in> set (student_columns db). \<not> like h (Field c)"
    and fresh: "\<forall>c \<in> set (student_columns db). \<not> ci_eq (Field c) h"
    by (auto simp: list_ex_iff)
  from no Cons.prems(2) have "\<not> ci_eq ''student_id'' h"
    unfolding list_ex_iff by blast
  then have neq: "h \<noteq> ''student_id''"
    by (auto simp: ci_eq_def)
  from add_new_column_fresh [OF h nolike fresh]
  have cols: "student_columns (add_new_column db h) = student_columns db @ [dynamic_column h]"
    and sts: "students (add_new_column db h) = map (\<lambda>r. r(h := SqlNull)) (students db)"
    by simp_all
  from rest cols have ok: "headers_ok (add_new_column db h) hs"
    by (simp add: headers_ok_def)
  from Cons.prems(2) cols
  have sid: "''student_id'' \<in> set (map Field (student_columns (add_new_column db h)))"
    by simp
  from sts neq
  have "map (\<lambda>st. st ''student_id'') (students (add_new_column db h))
          = map (\<lambda>st. st ''student_id'') (students db)"
    by simp
  with Cons.IH [OF ok sid] cols show ?case by simp
qed

lemma addable_names:
  "addable names hs \<Longrightarrow> distinct (map (map lower) names) \<Longrightarrow>
   distinct (map (map lower) (names @ hs)) \<and> list_all (\<lambda>h. CHR ''.'' \<notin> set h) hs"
proof (induction hs arbitrary: names)
  case Nil
  then show ?case by simp
next
  case (Cons h hs)
  from Cons.prems(1) have dot: "CHR ''.'' \<notin> set h"
    and no: "\<not> list_ex (\<lambda>n. ci_eq n h \<or> like h n) names"
    and rest: "addable (names @ [h]) hs"
    by simp_all
  from no have "map lower h \<notin> set (map (map lower) names)"
    by (auto simp: list_ex_iff ci_eq_def)
  with Cons.prems(2) have "distinct (map (map lower) (names @ [h]))"
    by simp
  from Cons.IH [OF rest this] dot show ?case by simp
qed

lemma cell_fits_added:
  assumes "student_columns db1 = student_columns db @ map dynamic_column hs"
    and "cell_fits db hs kv"
  shows "cell_fits db1 [] kv"
proof (cases kv)
  case (Pair k v)
  show ?thesis
  proof (cases "sql_param v")
    case None
    with Pair show ?thesis by (simp add: cell_fits_def)
  next
    case (Some l)
    with Pair assms(2) consider "\<not> filled v" | "k \<in> set hs" "length (literal_text l) \<le> 255"
      | c where "c \<in> set (student_columns db)" "Field c = k"
          "(case Type c of TVarchar n \<Rightarrow> length (literal_text l) \<le> n | _ \<Rightarrow> False)"
          "Unique c \<longrightarrow> k = ''student_id''"
      by (auto simp: cell_fits_def list_ex_iff)
    then show ?thesis
    proof cases
      case 1
      with Pair show ?thesis by (simp add: cell_fits_def)
    next
      case 2
      then have "dynamic_column k \<in> set (student_columns db1)"
        by (simp add: assms(1))
      moreover from 2
      have "(case Type (dynamic_column k) of TVarchar n \<Rightarrow> length (literal_text l) \<le> n | _ \<Rightarrow> False)"
        "\<not> Unique (dynamic_column k)"
        by (simp_all add: dynamic_column_def)
      ultimately show ?thesis using Pair Some
        by (auto simp: cell_fits_def list_ex_iff intro!: bexI [of _ "dynamic_column k"])
    next
      case 3
      then have "c \<in> set (student_columns db1)" by (simp add: assms(1))
      with 3 Pair Some show ?thesis
        by (auto simp: cell_fits_def list_ex_iff)
    qed
  qed
qed

lemma complete_row_added:
  assumes "student_columns db1 = student_columns db @ map dynamic_column hs"
    and "complete_row db r"
  shows "complete_row db1 r"
  using assms by (auto simp: complete_row_def list_all_iff dynamic_column_def)

lemma table_ok_added:
  assumes "student_columns db1 = student_columns db @ map dynamic_column hs"
    and "table_ok db" and "headers_ok db hs"
  shows "table_ok db1"
proof -
  from assms(2) have "distinct (map (map lower) (map Field (student_columns db)))"
    by (simp add: table_ok_def comp_def)
  from addable_names [OF assms(3) [unfolded headers_ok_def] this]
  have "distinct (map (map lower) (map Field (student_columns db) @ hs))"
    and "list_all (\<lambda>h. CHR ''.'' \<notin> set h) hs"
    by simp_all
  moreover have "map Field (student_columns db1) = map Field (student_columns db) @ hs"
    by (simp add: assms(1) comp_def)
  ultimately have "distinct (map (map lower \<circ> Field) (student_columns db1))"
    and "list_all (\<lambda>c. CHR ''.'' \<notin> set (Field c)) (student_columns db1)"
    using assms(2)
    by (simp_all add: table_ok_def assms(1) list_all_iff map_map [symmetric] del: map_map)
       auto
  with assms(2) show ?thesis
    by (simp add: table_ok_def assms(1) comp_def)
qed

lemma valid_row_added:
  assumes "student_columns db1 = student_columns db @ map dynamic_column hs"
    and "valid_row db hs r"
  shows "valid_row db1 [] r"
  using assms(2) cell_fits_added [OF assms(1)] complete_row_added [OF assms(1)]
  by (auto simp: valid_row_def list_all_iff)

lemma without_added:
  assumes "student_columns db1 = student_columns db @ map dynamic_column hs"
    and "row_without_student_id db hs r"
  shows "row_without_student_id db1 [] r"
  using assms(2) cell_fits_added [OF assms(1)]
  by (auto simp: row_without_student_id_def list_all_iff)

lemma post_api_upload_eq:
  "post_api_upload db (Some (first # rest)) =
     (case fold (\<lambda>row state. insert_or_update state row) (first # rest)
             (fold (\<lambda>col d. add_new_column d col) (new_headers db first) db, 0, 0) of
        (db2, insertedCount, errorCount) \<Rightarrow>
          (db2, Inr \<lparr>recordsProcessed = insertedCount, recordsFailed = errorCount,
                     newColumnsAdded = new_headers db first\<rparr>))"
  by (simp add: post_api_upload_def new_headers_def Let_def)

lemma upload_tallies:
  assumes ok: "table_ok db" and h: "headers_ok db (new_headers db first)"
    and rows: "list_all (\<lambda>r. valid_row db (new_headers db first) r \<or>
                              row_without_student_id db (new_headers db first) r) (first # rest)"
    and ids: "ids_comparable db (first # rest)"
  shows "\<exists>db'. post_api_upload db (Some (first # rest))
             = (db', Inr \<lparr>recordsProcessed =
                            length (filter (valid_row db (new_headers db first)) (first # rest)),
                          recordsFailed =
                            length (filter (row_without_student_id db (new_headers db first))
                                      (first # rest)),
                          newColumnsAdded = new_headers db first\<rparr>) \<and>
           student_columns db' = student_columns db @ map dynamic_column (new_headers db first) \<and>
           ids_comparable db' (first # rest)"
proof -
  define hs where "hs = new_headers db first"
  define db1 where "db1 = fold (\<lambda>col d. add_new_column d col) hs db"
  from ok obtain c0 where "c0 \<in> set (student_columns db)" "Field c0 = ''student_id''"
    by (auto simp: table_ok_def list_ex_iff)
  then have "''student_id'' \<in> set (map Field (student_columns db))"
    by force
  from fold_add_new_column [OF h [folded hs_def] this]
  have cols: "student_columns db1 = student_columns db @ map dynamic_column hs"
    and same: "map (\<lambda>st. st ''student_id'') (students db1)
                 = map (\<lambda>st. st ''student_id'') (students db)"
    unfolding db1_def by simp_all
  from ids have ids1: "ids_comparable db1 (first # rest)"
    by (simp only: ids_comparable_same [OF same])
  have ok1: "table_ok db1"
    using cols ok h [folded hs_def] by (rule table_ok_added)
  have v: "valid_row db1 [] r = valid_row db hs r"
    and b: "row_without_student_id db1 [] r = row_without_student_id db hs r"
    if r: "r \<in> set (first # rest)" for r
  proof -
    from rows r have either: "valid_row db hs r \<or> row_without_student_id db hs r"
      by (auto simp: list_all_iff hs_def)
    have excl: "\<not> (valid_row db1 [] r \<and> row_without_student_id db1 [] r)"
      using valid_has_student_id [OF ok1, of "[]" r]
      by (auto simp: row_without_student_id_def)
    from either excl valid_row_added [OF cols, of r] without_added [OF cols, of r]
    show "valid_row db1 [] r = valid_row db hs r"
      and "row_without_student_id db1 [] r = row_without_student_id db hs r"
      by blast+
  qed
  then have all: "\<forall>r \<in> set (first # rest). valid_row db1 [] r \<or> row_without_student_id db1 [] r"
    using rows by (auto simp: list_all_iff hs_def)
  have fv: "filter (valid_row db1 []) (first # rest) = filter (valid_row db hs) (first # rest)"
    using v by (intro filter_cong) auto
  have fb: "filter (row_without_student_id db1 []) (first # rest)
              = filter (row_without_student_id db hs) (first # rest)"
    using b by (intro filter_cong) auto
  from fold_insert_or_update_tallies [OF ok1 all subset_refl ids1, of 0 0] obtain db2 where
    "fold (\<lambda>row state. insert_or_update state row) (first # rest) (db1, 0, 0)
       = (db2, 0 + length (filter (valid_row db1 []) (first # rest)),
               0 + length (filter (row_without_student_id db1 []) (first # rest)))"
    and "student_columns db2 = student_columns db1"
    and "ids_comparable db2 (first # rest)"
    by blast
  with fv fb cols show ?thesis
    unfolding post_api_upload_eq hs_def [symmetric] db1_def [symmetric]
    by simp
qed





text \<open>
  The tallies of server.js for a sheet in which one row is missing its student id: with
  a sound table, headers the upload can turn into columns, valid rows before and after
  that row, and student ids that are comparable with those of the table, the upload
  succeeds, every valid row is processed and the one row is counted as failed. With
  nine valid rows the result is processed 9, failed 1.
\<close>

theorem upload_counts_row_without_student_id:
  assumes ok: "table_ok db" and hs: "hs = new_headers db (hd (xs @ bad # ys))"
    and h: "headers_ok db hs"
    and rows: "list_all (valid_row db hs) (xs @ ys)"
    and bad: "row_without_student_id db hs bad"
    and ids: "ids_comparable db (xs @ bad # ys)"
  shows "\<exists>db'. post_api_upload db (Some (xs @ bad # ys))
             = (db', Inr \<lparr>recordsProcessed = length xs + length ys, recordsFailed = 1,
                          newColumnsAdded = hs\<rparr>)"
proof -
  obtain first rest where fr: "xs @ bad # ys = first # rest"
    by (cases "xs @ bad # ys") auto
  with hs have hs': "hs = new_headers db first" by simp
  have nb: "\<not> row_without_student_id db hs r" if "valid_row db hs r" for r
    using valid_has_student_id [OF ok that] by (simp add: row_without_student_id_def)
  have nv: "\<not> valid_row db hs bad"
    using nb bad by blast
  from rows bad have all: "list_all (\<lambda>r. valid_row db hs r \<or> row_without_student_id db hs r)
                             (xs @ bad # ys)"
    by (auto simp: list_all_iff)
  from rows nv have "filter (valid_row db hs) (xs @ bad # ys) = xs @ ys"
    by (auto simp: list_all_iff filter_id_conv)
  then have c1: "length (filter (valid_row db hs) (xs @ bad # ys)) = length xs + length ys"
    by simp
  from rows nb bad have "filter (row_without_student_id db hs) (xs @ bad # ys) = [bad]"
    by (auto simp: list_all_iff filter_empty_conv)
  then have c2: "length (filter (row_without_student_id db hs) (xs @ bad # ys)) = 1"
    by simp
  from upload_tallies [OF ok h [unfolded hs'] all [unfolded fr hs'] ids [unfolded fr]] c1 c2
  show ?thesis
    unfolding fr hs' by auto
qed

theorem upload_counts_row_without_student_id_witness:
  "table_ok school \<and> headers_ok school [] \<and>
   new_headers school (hd ten_rows) = [] \<and>
   list_all (valid_row school []) (nine_pupils_before @ nine_pupils_after) \<and>
   row_without_student_id school [] no_student_id \<and>
   ids_comparable school (nine_pupils_before @ no_student_id # nine_pupils_after) \<and>
   length (nine_pupils_before @ no_student_id # nine_pupils_after) = 10 \<and>
   (\<exists>db'. post_api_upload school (Some (nine_pupils_before @ no_student_id # nine_pupils_after))
            = (db', Inr \<lparr>recordsProcessed = 9, recordsFailed = 1, newColumnsAdded = []\<rparr>))"
proof -
  have ok: "table_ok school" by code_simp
  have nh: "[] = new_headers school (hd (nine_pupils_before @ no_student_id # nine_pupils_after))"
    by code_simp
  then have nh': "new_headers school (hd ten_rows) = []"
    by (simp add: ten_rows_def)
  have h: "headers_ok school []" by code_simp
  have rows: "list_all (valid_row school []) (nine_pupils_before @ nine_pupils_after)"
    by code_simp
  have bad: "row_without_student_id school [] no_student_id" by code_simp
  have ids: "ids_comparable school (nine_pupils_before @ no_student_id # nine_pupils_after)"
    by code_simp
  have l: "length nine_pupils_before = 3" "length nine_pupils_after = 6"
    by (simp_all add: nine_pupils_before_def nine_pupils_after_def)
  from upload_counts_row_without_student_id [OF ok nh h rows bad ids] ok nh' h rows bad ids l
  show ?thesis by simp
qed

subsection \<open>The upload of the second server file\<close>

text \<open>
  C5, in the second server file. Its upload has one counter only: of ten rows of which
  one is missing its student id, nine are processed and the request succeeds, but the
  failed row is logged and counted nowhere, and the response has no tally of failures.
\<close>

theorem upload_2_has_no_failed_tally:
  "length ten_rows = 10 \<and>
   snd (post_api_upload_2 school (Some ten_rows)) = Inr (9, [])"
  by code_simp

text \<open>
  C1, in the second server file. Its upload writes every cell of a row, filled or not.
  Student S1 has the phone 555; a sheet with one row for S1 whose phone cell is the
  empty text is uploaded; the row is processed, and afterwards the stored phone of S1 is
  the empty text. The upload of server.js leaves 555 in place on the same sheet.
\<close>

theorem upload_2_overwrites_with_blank:
  "get_api_columns with_phone = [''student_id'', ''name'', ''class'', ''section'', ''phone''] \<and>
   map (\<lambda>r. (r ''student_id'', r ''phone'')) (students with_phone)
     = [(SqlText ''S1'', SqlText ''555'')] \<and>
   snd (post_api_upload_2 with_phone (Some [alice_blank_phone])) = Inr (1, []) \<and>
   map (\<lambda>r. (r ''student_id'', r ''phone''))
       (students (fst (post_api_upload_2 with_phone (Some [alice_blank_phone]))))
     = [(SqlText ''S1'', SqlText [])] \<and>
   map (\<lambda>r. (r ''student_id'', r ''phone''))
       (students (fst (post_api_upload with_phone (Some [alice_blank_phone]))))
     = [(SqlText ''S1'', SqlText ''555'')]"
  by code_simp

subsection \<open>What a row of an upload writes in server.js\<close>

lemma supplied_iff:
  "supplied db row u f x \<longleftrightarrow>
     (\<exists>k v l c. (k, v) \<in> set row \<and> (u \<longrightarrow> k \<noteq> ''student_id'') \<and> filled v \<and>
                sql_param v = Some l \<and> column_ref db k = Some c \<and> Field c = f \<and>
                store_value c l = Inr x)"
proof
  assume "supplied db row u f x"
  then obtain k v where kv: "(k, v) \<in> set row" "u \<longrightarrow> k \<noteq> ''student_id''" "filled v"
    and c: "(case sql_param v of None \<Rightarrow> False
             | Some l \<Rightarrow> (case column_ref db k of None \<Rightarrow> False
                          | Some c \<Rightarrow> Field c = f \<and> store_value c l = Inr x))"
    by (auto simp: supplied_def list_ex_iff)
  from c obtain l where l: "sql_param v = Some l"
    "(case column_ref db k of None \<Rightarrow> False | Some c \<Rightarrow> Field c = f \<and> store_value c l = Inr x)"
    by (cases "sql_param v") auto
  with kv show "\<exists>k v l c. (k, v) \<in> set row \<and> (u \<longrightarrow> k \<noteq> ''student_id'') \<and> filled v \<and>
                sql_param v = Some l \<and> column_ref db k = Some c \<and> Field c = f \<and>
                store_value c l = Inr x"
    by (cases "column_ref db k") auto
next
  assume "\<exists>k v l c. (k, v) \<in> set row \<and> (u \<longrightarrow> k \<noteq> ''student_id'') \<and> filled v \<and>
                sql_param v = Some l \<and> column_ref db k = Some c \<and> Field c = f \<and>
                store_value c l = Inr x"
  then show "supplied db row u f x"
    by (force simp: supplied_def list_ex_iff)
qed

lemma show_nat_not_empty: "show_nat n \<noteq> []"
  by (subst show_nat.simps) simp

lemma show_int_not_empty: "show_int k \<noteq> []"
  by (simp add: show_int_def show_nat_not_empty)

lemma store_text_not_blank:
  "store_text c s = Inr x \<Longrightarrow> s \<noteq> [] \<Longrightarrow> x \<noteq> SqlNull \<and> x \<noteq> SqlText []"
  by (cases "Type c") (auto simp: store_text_def split: option.splits if_splits)

lemma store_value_not_blank:
  assumes "store_value c l = Inr x" and "filled v" and "sql_param v = Some l"
  shows "x \<noteq> SqlNull \<and> x \<noteq> SqlText []"
proof (cases l)
  case (Text s)
  with assms(2,3) have "s \<noteq> []"
    by (cases v) (auto simp: filled_def split: if_splits)
  with assms(1) Text show ?thesis
    by (simp add: store_value_def store_text_not_blank)
next
  case (Number k)
  show ?thesis
  proof (cases "Type c = TInt")
    case True
    with assms(1) Number show ?thesis by (auto simp: store_value_def)
  next
    case False
    with assms(1) Number have "store_text c (show_int k) = Inr x"
      by (cases "Type c") (simp_all add: store_value_def)
    with show_int_not_empty show ?thesis
      by (rule store_text_not_blank [rotated])
  qed
qed

lemma supplied_not_blank:
  "supplied db row u f x \<Longrightarrow> x \<noteq> SqlNull \<and> x \<noteq> SqlText []"
  unfolding supplied_iff using store_value_not_blank by blast

lemma insert_student_frame:
  assumes d: "distinct (map Field (student_columns db))"
    and ins: "insert_student db (insert_args r) = Inr db'"
  shows "\<exists>x. students db' = students db @ [x] \<and> student_columns db' = student_columns db \<and>
             (\<forall>f. x f = unset db f \<or> supplied db r False f (x f))"
proof -
  from ins obtain x where x: "new_row db (insert_args r) = Inr x"
    and db': "db' = db\<lparr>students := students db @ [x],
                        students_auto_increment := next_auto_increment db x\<rparr>"
    by (auto simp: insert_student_def split: sum.splits if_splits)
  from x obtain cvs where cvs: "column_refs db (insert_args r) = Some cvs"
    and b: "build_row db (student_columns db) (map_of (named_values cvs)) = Inr x"
    by (auto simp: new_row_def split: option.splits if_splits)
  note vals = build_row_values [OF b d]
  have inj: "inj_on Field (set (student_columns db))"
    using d by (simp add: distinct_map)
  have "x f = unset db f \<or> supplied db r False f (x f)" for f
  proof (cases "find (\<lambda>c. Field c = f) (student_columns db)")
    case None
    then have "f \<notin> Field ` set (student_columns db)"
      by (auto simp: find_None_iff)
    with vals None show ?thesis by (simp add: unset_def)
  next
    case (Some c)
    then have c: "c \<in> set (student_columns db)" "Field c = f"
      by (auto simp: find_Some_iff)
    with vals have v: "(case map_of (named_values cvs) f of
                          None \<Rightarrow> default_value db c
                        | Some v \<Rightarrow> insert_value db c v) = Inr (x f)"
      by auto
    show ?thesis
    proof (cases "map_of (named_values cvs) f")
      case None
      with v Some show ?thesis by (simp add: unset_def)
    next
      case (Some v')
      then have "(f, v') \<in> set (named_values cvs)" by (rule map_of_SomeD)
      then obtain cv where cv: "cv \<in> set cvs" "Field (fst cv) = f" "snd cv = v'"
        by (auto simp: named_values_def)
      from list_all2_right [OF column_refs_rel [OF cvs] cv(1)] obtain kv where
        kv: "kv \<in> set (insert_args r)" "column_ref db (fst kv) = Some (fst cv)" "snd cv = snd kv"
        by blast
      from kv(1) have "(fst kv, snd kv) \<in> set (insert_args r)" by simp
      then obtain w where w: "snd kv = sql_param w" "filled w" "(fst kv, w) \<in> set r"
        unfolding insert_args_mem by blast
      from filled_param [OF w(2)] obtain l where l: "sql_param w = Some l"
        by blast
      from column_ref_mem [OF kv(2)] c cv(2) inj have "fst cv = c"
        by (auto dest: inj_onD)
      from cv(3) kv(3) w(1) l have v': "v' = Some l"
        by simp
      from v Some have "insert_value db c v' = Inr (x f)"
        by simp
      then have "store_value c l = Inr (x f)"
        unfolding v' by (simp add: insert_value_def)
      with w l kv(2) \<open>fst cv = c\<close> c(2) have "supplied db r False f (x f)"
        unfolding supplied_iff by blast
      then show ?thesis ..
    qed
  qed
  with db' show ?thesis by simp
qed

lemma update_student_frame:
  assumes "update_student db (update_args r) sid = Inr db'"
  shows "student_columns db' = student_columns db \<and>
         length (students db') = length (students db) \<and>
         (\<forall>i < length (students db). \<forall>f.
            (students db' ! i) f = (students db ! i) f \<or>
            supplied db r True f ((students db' ! i) f))"
proof -
  from assms obtain cvs where cvs: "column_refs db (update_args r) = Some cvs"
    by (auto simp: update_student_def split: option.splits)
  from assms cvs obtain k where k: "find_column (student_columns db) ''student_id'' = Some k"
    by (auto simp: update_student_def split: option.splits)
  from assms cvs k obtain out where
    out: "update_rows (student_columns db) cvs (\<lambda>r. matches (r (Field k)) sid) []
                (students db) = Inr out"
    and db': "db' = db\<lparr>students := out\<rparr>"
    by (auto simp: update_student_def split: sum.splits)
  from update_rows_frame [OF out] have len: "length out = length (students db)"
    and fr: "\<forall>j < length (students db). \<forall>f.
      (out ! j) f = (students db ! j) f \<or>
      (\<exists>cv \<in> set cvs. Field (fst cv) = f \<and> update_value (fst cv) (snd cv) = Inr ((out ! j) f))"
    by simp_all
  have sup: "supplied db r True f y"
    if cv: "cv \<in> set cvs" "Field (fst cv) = f" "update_value (fst cv) (snd cv) = Inr y" for cv f y
  proof -
    from list_all2_right [OF column_refs_rel [OF cvs] cv(1)] obtain kv where
      kv: "kv \<in> set (update_args r)" "column_ref db (fst kv) = Some (fst cv)" "snd cv = snd kv"
      by blast
    from kv(1) have k: "fst kv \<noteq> ''student_id''" "filled (property r (fst kv))"
        "snd kv = sql_param (property r (fst kv))"
      by (auto simp: update_args_def updateColumns_of_def)
    from filled_param [OF k(2)] obtain l where l: "sql_param (property r (fst kv)) = Some l"
      by blast
    from property_filled_mem [OF k(2)] have m: "(fst kv, property r (fst kv)) \<in> set r" .
    from cv(3) kv(3) k(3) l have "store_value (fst cv) l = Inr y"
      by (simp add: update_value_def)
    with m k(1,2) l kv(2) cv(2) show ?thesis
      unfolding supplied_iff by blast
  qed
  from fr sup have "\<forall>j < length (students db). \<forall>f.
      (out ! j) f = (students db ! j) f \<or> supplied db r True f ((out ! j) f)"
    by blast
  with len db' show ?thesis by simp
qed

text \<open>
  The loop body of server.js writes filled cells only. Let the column names of the table
  be distinct. A row never changes the columns of the table. It either appends one
  student, in which every column holds a value the row supplies or is left unset; or it
  leaves the number of students as it is, and a value of a stored student that changed
  is one the row supplies under a key other than \<^verbatim>\<open>student_id\<close>, and is neither
  \<^verbatim>\<open>NULL\<close> nor the empty text. When no other key of the row refers to the column
  \<^verbatim>\<open>student_id\<close>, the student id of no stored student changes.
\<close>

theorem upsert_writes_filled_cells_only:
  assumes d: "distinct (map Field (student_columns db))"
    and st: "insert_or_update (db, n, e) row = (db', n', e')"
  shows "student_columns db' = student_columns db \<and>
         ((\<exists>x. students db' = students db @ [x] \<and>
               (\<forall>f. x f = unset db f \<or> supplied db row False f (x f))) \<or>
          (length (students db') = length (students db) \<and>
           (\<forall>i < length (students db). \<forall>f.
              (students db' ! i) f = (students db ! i) f \<or>
              (supplied db row True f ((students db' ! i) f) \<and>
               (students db' ! i) f \<noteq> SqlNull \<and> (students db' ! i) f \<noteq> SqlText [])))) \<and>
         (names_student_id_once db row \<longrightarrow>
            (\<forall>i < length (students db).
               (students db' ! i) ''student_id'' = (students db ! i) ''student_id''))"
proof -
  consider (same) "db' = db"
    | (ins) "insert_student db (insert_args row) = Inr db'"
    | (upd) "update_student db (update_args row) (student_id_of row) = Inr db'"
    using st unfolding insert_or_update_eq
    by (auto split: if_splits sum.splits)
  then show ?thesis
  proof cases
    case same
    then show ?thesis by simp
  next
    case ins
    from insert_student_frame [OF d ins] obtain x where
      x: "students db' = students db @ [x]" "student_columns db' = student_columns db"
        "\<forall>f. x f = unset db f \<or> supplied db row False f (x f)"
      by blast
    from x(1) have "\<forall>i < length (students db). students db' ! i = students db ! i"
      by (simp add: nth_append)
    with x show ?thesis by auto
  next
    case upd
    note fr = update_student_frame [OF upd]
    have "(students db' ! i) ''student_id'' = (students db ! i) ''student_id''"
      if once: "names_student_id_once db row" and i: "i < length (students db)" for i
    proof (rule ccontr)
      assume "(students db' ! i) ''student_id'' \<noteq> (students db ! i) ''student_id''"
      with fr i have "supplied db row True ''student_id'' ((students db' ! i) ''student_id'')"
        by blast
      then obtain k v c where "(k, v) \<in> set row" "k \<noteq> ''student_id''"
          "column_ref db k = Some c" "Field c = ''student_id''"
        unfolding supplied_iff by blast
      with once show False
        by (auto simp: names_student_id_once_def list_all_iff)
    qed
    with fr supplied_not_blank [of db row True] show ?thesis
      by blast
  qed
qed

theorem upsert_writes_filled_cells_only_witness:
  "distinct (map Field (student_columns with_phone)) \<and>
   names_student_id_once with_phone alice_blank_phone \<and>
   snd (insert_or_update (with_phone, 0, 0) alice_blank_phone) = (1, 0) \<and>
   student_columns (fst (insert_or_update (with_phone, 0, 0) alice_blank_phone))
     = student_columns with_phone \<and>
   map (\<lambda>r. r ''student_id'') (students (fst (insert_or_update (with_phone, 0, 0) alice_blank_phone)))
     = map (\<lambda>r. r ''student_id'') (students with_phone) \<and>
   map (\<lambda>r. r ''phone'') (students (fst (insert_or_update (with_phone, 0, 0) alice_blank_phone)))
     = [SqlText ''555'']"
proof -
  have d: "distinct (map Field (student_columns with_phone))" by code_simp
  have o: "names_student_id_once with_phone alice_blank_phone" by code_simp
  have c: "snd (insert_or_update (with_phone, 0, 0) alice_blank_phone) = (1, 0)" by code_simp
  have l: "length (students with_phone) = 1" by code_simp
  have l': "length (students (fst (insert_or_update (with_phone, 0, 0) alice_blank_phone))) = 1"
    by code_simp
  have p: "map (\<lambda>r. r ''phone'')
             (students (fst (insert_or_update (with_phone, 0, 0) alice_blank_phone)))
           = [SqlText ''555'']"
    by code_simp
  from c have st: "insert_or_update (with_phone, 0, 0) alice_blank_phone
      = (fst (insert_or_update (with_phone, 0, 0) alice_blank_phone), 1, 0)"
    by (metis prod.collapse)
  from upsert_writes_filled_cells_only [OF d st] o l
  have cols: "student_columns (fst (insert_or_update (with_phone, 0, 0) alice_blank_phone))
                = student_columns with_phone"
    and sid: "(students (fst (insert_or_update (with_phone, 0, 0) alice_blank_phone)) ! 0) ''student_id''
                = (students with_phone ! 0) ''student_id''"
    by simp_all
  from l l' sid
  have "map (\<lambda>r. r ''student_id'')
          (students (fst (insert_or_update (with_phone, 0, 0) alice_blank_phone)))
        = map (\<lambda>r. r ''student_id'') (students with_phone)"
    by (simp add: list_eq_iff_nth_eq)
  with d o c cols p show ?thesis by simp
qed

end
